theory Spec2Isabelle
  imports Main "HOL-Library.Sublist"
begin

section \<open>The parent-student linking endpoints of server.ts\<close>

text \<open>
  The linking endpoints of \<^verbatim>\<open>src/server.ts\<close> (lines 230-333) work on two SQLite
  tables, \<^verbatim>\<open>linking_codes\<close> and \<^verbatim>\<open>parent_student_links\<close> (schema at lines
  146-165), and read the \<^verbatim>\<open>users\<close> table. A table is the list of its rows in rowid
  order: an INSERT appends, an UPDATE maps over the rows, \<^verbatim>\<open>.get()\<close> is the first
  row that satisfies the WHERE clause. No statement of the server deletes a row of
  the two tables. The fifth endpoint, \<^verbatim>\<open>GET /api/parent/students\<close> (lines 317-333),
  only reads; the four others are embedded below.

  Conventions of the embedding.
  \<^item> Identifiers, codes and the status are the strings the handlers receive
    (\<^verbatim>\<open>req.query\<close>, \<^verbatim>\<open>req.params\<close>, \<^verbatim>\<open>req.body\<close>); the status of a PATCH is
    whatever string the body carries.
  \<^item> A timestamp is the number of milliseconds since the epoch. The source
    stores and compares \<^verbatim>\<open>toISOString()\<close> texts; these have a fixed width, so the
    text order of SQLite is the order of the numbers.
  \<^item> Every clock read (\<^verbatim>\<open>new Date()\<close>, \<^verbatim>\<open>Date.now()\<close>) and every random draw
    (\<^verbatim>\<open>Math.random()\<close>) is an argument of the handler that makes it.
  \<^item> The three message texts of the source are Arabic literals; they are the
    three constructors of \<open>message\<close> below.
  \<^item> An exception that leaves a handler is the response \<open>Unhandled\<close>: Express
    answers it with its default error page (status 500), no JSON body.
\<close>

subsection \<open>Tables\<close>

record linking_code =
  lc_id :: string
  lc_studentId :: string
  lc_code :: string
  lc_expiresAt :: nat
  lc_used :: nat

record parent_student_link =
  pl_id :: string
  pl_parentId :: string
  pl_studentId :: string
  pl_status :: string
  pl_createdAt :: nat

text \<open>Of a \<^verbatim>\<open>users\<close> row only the columns the linking endpoints read.\<close>

record user =
  u_id :: string
  u_fullName :: string
  u_email :: string

record db =
  linking_codes :: "linking_code list"
  parent_student_links :: "parent_student_link list"

definition empty_db :: db where
  "empty_db = \<lparr>linking_codes = [], parent_student_links = []\<rparr>"

text \<open>
  What a linking request finds around the two tables: the current rows of
  \<^verbatim>\<open>users\<close> (written by the account endpoints only) and whether the connection
  enforces the FOREIGN KEY clauses of the schema (the \<^verbatim>\<open>foreign_keys\<close> pragma, which
  the source leaves at the default of its SQLite build).
\<close>

record env =
  users :: "user list"
  foreign_keys :: bool

datatype exn = SqliteError | TypeError

datatype message = InvalidOrExpiredCode | LinkAlreadyExists | LinkRequestSent

record pending_row =
  pr_link :: parent_student_link
  pr_parentName :: string
  pr_parentEmail :: string

datatype response =
    CodeJson string nat
  | MessageJson nat bool message
  | SuccessJson
  | RowsJson "pending_row list"
  | Unhandled exn

subsection \<open>Constraints of the schema\<close>

definition references_user :: "env \<Rightarrow> string \<Rightarrow> bool" where
  "references_user e uid = (foreign_keys e \<longrightarrow> uid \<in> set (map u_id (users e)))"

text \<open>
  \<^verbatim>\<open>INSERT INTO linking_codes\<close>: \<^verbatim>\<open>id TEXT PRIMARY KEY\<close>, \<^verbatim>\<open>code TEXT UNIQUE\<close>,
  \<^verbatim>\<open>FOREIGN KEY(studentId) REFERENCES users(id)\<close>.
\<close>

definition insert_linking_code :: "env \<Rightarrow> linking_code \<Rightarrow> linking_code list \<Rightarrow> exn + linking_code list" where
  "insert_linking_code e r t =
     (if lc_id r \<in> set (map lc_id t) then Inl SqliteError
      else if lc_code r \<in> set (map lc_code t) then Inl SqliteError
      else if \<not> references_user e (lc_studentId r) then Inl SqliteError
      else Inr (t @ [r]))"

text \<open>
  \<^verbatim>\<open>INSERT INTO parent_student_links\<close>: \<^verbatim>\<open>id TEXT PRIMARY KEY\<close>,
  \<^verbatim>\<open>UNIQUE(parentId, studentId)\<close>, both ids \<^verbatim>\<open>REFERENCES users(id)\<close>.
\<close>

definition link_pair :: "parent_student_link \<Rightarrow> string \<times> string" where
  "link_pair l = (pl_parentId l, pl_studentId l)"

definition insert_link :: "env \<Rightarrow> parent_student_link \<Rightarrow> parent_student_link list \<Rightarrow> exn + parent_student_link list" where
  "insert_link e l t =
     (if pl_id l \<in> set (map pl_id t) then Inl SqliteError
      else if link_pair l \<in> set (map link_pair t) then Inl SqliteError
      else if \<not> (references_user e (pl_parentId l) \<and> references_user e (pl_studentId l)) then Inl SqliteError
      else Inr (t @ [l]))"

subsection \<open>generateLinkingCode (lines 179-186)\<close>

definition chars :: string where
  "chars = ''ABCDEFGHJKLMNPQRSTUVWXYZ23456789''"

text \<open>\<^verbatim>\<open>String.prototype.charAt\<close>: the empty string out of range.\<close>

definition charAt :: "string \<Rightarrow> nat \<Rightarrow> string" where
  "charAt s i = (if i < length s then [s ! i] else [])"

text \<open>
  The loop \<^verbatim>\<open>for (let i = 0; i < 6; i++) code += chars.charAt(...)\<close>; \<open>rnd i\<close> is
  \<^verbatim>\<open>Math.floor(Math.random() * chars.length)\<close> of iteration \<open>i\<close>.
\<close>

function code_loop :: "(nat \<Rightarrow> nat) \<Rightarrow> nat \<Rightarrow> string \<Rightarrow> string" where
  "code_loop rnd i code = (if i < 6 then code_loop rnd (i + 1) (code @ charAt chars (rnd i)) else code)"
  by pat_completeness auto
termination
  by (relation "measure (\<lambda>(rnd, i, code). 6 - i)") auto

declare code_loop.simps [simp del]

definition generateLinkingCode :: "(nat \<Rightarrow> nat) \<Rightarrow> string" where
  "generateLinkingCode rnd = code_loop rnd 0 ''STU-''"

subsection \<open>The handlers\<close>

text \<open>The WHERE clause \<^verbatim>\<open>used = 0 AND expiresAt > ?\<close> shared by lines 239 and 266.\<close>

definition valid_at :: "nat \<Rightarrow> linking_code \<Rightarrow> bool" where
  "valid_at now r = (lc_used r = 0 \<and> now < lc_expiresAt r)"

text \<open>
  \<^verbatim>\<open>GET /api/student/linking-code\<close> (lines 233-257). \<open>now\<close> is the clock read of the
  query (line 240), \<open>now'\<close> the \<^verbatim>\<open>Date.now()\<close> of line 248, \<open>rnd\<close> the draws of
  \<^verbatim>\<open>generateLinkingCode\<close>, \<open>newId\<close> the random row id of line 249. The INSERT is not
  inside a try block.
\<close>

definition getLinkingCode :: "env \<Rightarrow> string \<Rightarrow> nat \<Rightarrow> nat \<Rightarrow> (nat \<Rightarrow> nat) \<Rightarrow> string \<Rightarrow> db \<Rightarrow> response \<times> db" where
  "getLinkingCode e studentId now now' rnd newId d =
     (case find (\<lambda>r. lc_studentId r = studentId \<and> valid_at now r) (linking_codes d) of
        Some existing \<Rightarrow> (CodeJson (lc_code existing) (lc_expiresAt existing), d)
      | None \<Rightarrow>
          (let newCode = generateLinkingCode rnd;
               expiresAt = now' + 24 * 60 * 60 * 1000
           in case insert_linking_code e
                \<lparr>lc_id = newId, lc_studentId = studentId, lc_code = newCode,
                 lc_expiresAt = expiresAt, lc_used = 0\<rparr> (linking_codes d) of
                Inl err \<Rightarrow> (Unhandled err, d)
              | Inr t \<Rightarrow> (CodeJson newCode expiresAt, d\<lparr>linking_codes := t\<rparr>)))"

text \<open>
  \<^verbatim>\<open>POST /api/parent/link-request\<close> (lines 260-286). \<open>now\<close> is the clock read of the
  query, \<open>linkId\<close> the random row id, \<open>createdAt\<close> the clock read of line 280. The
  catch block answers every exception of the INSERT with the same message.
\<close>

definition postLinkRequest :: "env \<Rightarrow> string \<Rightarrow> string \<Rightarrow> nat \<Rightarrow> string \<Rightarrow> nat \<Rightarrow> db \<Rightarrow> response \<times> db" where
  "postLinkRequest e parentId code now linkId createdAt d =
     (case find (\<lambda>r. lc_code r = code \<and> valid_at now r) (linking_codes d) of
        None \<Rightarrow> (MessageJson 400 False InvalidOrExpiredCode, d)
      | Some codeData \<Rightarrow>
          (case insert_link e
                \<lparr>pl_id = linkId, pl_parentId = parentId, pl_studentId = lc_studentId codeData,
                 pl_status = ''pending'', pl_createdAt = createdAt\<rparr> (parent_student_links d) of
             Inl err \<Rightarrow> (MessageJson 400 False LinkAlreadyExists, d)
           | Inr t \<Rightarrow> (MessageJson 200 True LinkRequestSent, d\<lparr>parent_student_links := t\<rparr>)))"

text \<open>
  \<^verbatim>\<open>GET /api/student/link-requests\<close> (lines 289-298): the inner join of the links
  with \<^verbatim>\<open>users\<close> on \<^verbatim>\<open>l.parentId = u.id\<close>, restricted to the student's pending rows.
\<close>

definition getLinkRequests :: "env \<Rightarrow> string \<Rightarrow> db \<Rightarrow> response \<times> db" where
  "getLinkRequests e studentId d =
     (RowsJson (concat (map (\<lambda>l. map (\<lambda>u. \<lparr>pr_link = l, pr_parentName = u_fullName u, pr_parentEmail = u_email u\<rparr>)
                                  (filter (\<lambda>u. pl_parentId l = u_id u) (users e)))
                          (filter (\<lambda>l. pl_studentId l = studentId \<and> pl_status l = ''pending'')
                                  (parent_student_links d)))), d)"

text \<open>
  \<^verbatim>\<open>PATCH /api/student/link-requests/:id\<close> (lines 301-314). The UPDATE of line 305
  has no condition on the current status. For \<^verbatim>\<open>status === 'approved'\<close> line 309
  reads the row back; \<^verbatim>\<open>link.studentId\<close> of line 310 throws a TypeError when there
  is none.
\<close>

definition patchLinkRequest :: "string \<Rightarrow> string \<Rightarrow> db \<Rightarrow> response \<times> db" where
  "patchLinkRequest rid status d =
     (let d1 = d\<lparr>parent_student_links :=
                   map (\<lambda>l. if pl_id l = rid then l\<lparr>pl_status := status\<rparr> else l) (parent_student_links d)\<rparr>
      in if status = ''approved'' then
           (case find (\<lambda>l. pl_id l = rid) (parent_student_links d1) of
              None \<Rightarrow> (Unhandled TypeError, d1)
            | Some link \<Rightarrow>
                (SuccessJson,
                 d1\<lparr>linking_codes :=
                      map (\<lambda>r. if lc_studentId r = pl_studentId link then r\<lparr>lc_used := 1\<rparr> else r)
                          (linking_codes d1)\<rparr>))
         else (SuccessJson, d1))"

subsection \<open>Histories of requests\<close>

text \<open>
  The requests that reach the two tables. All other endpoints of the server
  write \<^verbatim>\<open>users\<close>, \<^verbatim>\<open>courses\<close>, \<^verbatim>\<open>notifications\<close> and \<^verbatim>\<open>logs\<close> only; their
  effect on a linking request is the \<open>env\<close> that request sees.
\<close>

datatype request =
    GetLinkingCode string nat nat "nat \<Rightarrow> nat" string
  | PostLinkRequest string string nat string nat
  | GetLinkRequests string
  | PatchLinkRequest string string

fun handle :: "env \<Rightarrow> request \<Rightarrow> db \<Rightarrow> response \<times> db" where
  "handle e (GetLinkingCode studentId now now' rnd newId) d = getLinkingCode e studentId now now' rnd newId d"
| "handle e (PostLinkRequest parentId code now linkId createdAt) d = postLinkRequest e parentId code now linkId createdAt d"
| "handle e (GetLinkRequests studentId) d = getLinkRequests e studentId d"
| "handle e (PatchLinkRequest rid status) d = patchLinkRequest rid status d"

text \<open>The requests are handled one after the other (better-sqlite3 is synchronous).\<close>

fun run :: "(env \<times> request) list \<Rightarrow> db \<Rightarrow> db" where
  "run [] d = d"
| "run ((e, q) # qs) d = run qs (snd (handle e q d))"

subsection \<open>Clock reads of a history\<close>

text \<open>
  The clock reads a request makes, in the order the handler makes them (line 240
  then line 248; line 267 then line 280).
\<close>

fun clock_reads :: "request \<Rightarrow> nat list" where
  "clock_reads (GetLinkingCode studentId now now' rnd newId) = [now, now']"
| "clock_reads (PostLinkRequest parentId code now linkId createdAt) = [now, createdAt]"
| "clock_reads (GetLinkRequests studentId) = []"
| "clock_reads (PatchLinkRequest rid status) = []"

definition clock_trace :: "(env \<times> request) list \<Rightarrow> nat list" where
  "clock_trace h = concat (map (\<lambda>eq. clock_reads (snd eq)) h)"

fun issues_for :: "string \<Rightarrow> request \<Rightarrow> bool" where
  "issues_for s (GetLinkingCode studentId now now' rnd newId) = (studentId = s)"
| "issues_for s (PostLinkRequest parentId code now linkId createdAt) = False"
| "issues_for s (GetLinkRequests studentId) = False"
| "issues_for s (PatchLinkRequest rid status) = False"

subsection \<open>Auxiliary notions of the proofs\<close>

text \<open>The PRIMARY KEY and UNIQUE constraints of the two tables, as a state predicate.\<close>

definition constraints_hold :: "db \<Rightarrow> bool" where
  "constraints_hold d =
     (distinct (map lc_id (linking_codes d)) \<and> distinct (map lc_code (linking_codes d)) \<and>
      distinct (map pl_id (parent_student_links d)) \<and> distinct (map link_pair (parent_student_links d)))"

text \<open>What never changes of a link row: its id, parent and student.\<close>

definition link_key :: "parent_student_link \<Rightarrow> string \<times> string \<times> string" where
  "link_key l = (pl_id l, pl_parentId l, pl_studentId l)"

text \<open>The rows of a student that the query of line 239 accepts at time \<open>t\<close>.\<close>

definition valid_codes :: "string \<Rightarrow> nat \<Rightarrow> db \<Rightarrow> linking_code list" where
  "valid_codes s t d = filter (\<lambda>r. lc_studentId r = s \<and> valid_at t r) (linking_codes d)"

text \<open>No student has two rows that the query accepts at time \<open>t\<close>.\<close>

definition one_valid_code :: "nat \<Rightarrow> db \<Rightarrow> bool" where
  "one_valid_code t d = (\<forall>s. length (valid_codes s t d) \<le> 1)"

text \<open>A code string that is stored and that no row offers with \<^verbatim>\<open>used = 0\<close>.\<close>

definition spent :: "string \<Rightarrow> db \<Rightarrow> bool" where
  "spent c d = (c \<in> set (map lc_code (linking_codes d)) \<and>
                (\<forall>r \<in> set (linking_codes d). lc_code r = c \<longrightarrow> lc_used r \<noteq> 0))"

text \<open>
  The one change a request makes to a link row that exists: the UPDATE of line 305
  writes the status of the row whose id the PATCH names.
\<close>

fun decided :: "request \<Rightarrow> parent_student_link \<Rightarrow> parent_student_link" where
  "decided (PatchLinkRequest rid status) l = (if pl_id l = rid then l\<lparr>pl_status := status\<rparr> else l)"
| "decided q l = l"

subsection \<open>A small school, for the concrete instances\<close>

definition ex_env :: env where
  "ex_env = \<lparr>users = [\<lparr>u_id = ''s1'', u_fullName = ''Student One'', u_email = ''s1@example.org''\<rparr>,
                      \<lparr>u_id = ''p1'', u_fullName = ''Parent One'', u_email = ''p1@example.org''\<rparr>,
                      \<lparr>u_id = ''p2'', u_fullName = ''Parent Two'', u_email = ''p2@example.org''\<rparr>],
             foreign_keys = True\<rparr>"

definition ex_code :: linking_code where
  "ex_code = \<lparr>lc_id = ''c1'', lc_studentId = ''s1'', lc_code = ''STU-AAAAAA'',
              lc_expiresAt = 86401000, lc_used = 0\<rparr>"

definition ex_link :: parent_student_link where
  "ex_link = \<lparr>pl_id = ''l1'', pl_parentId = ''p1'', pl_studentId = ''s1'',
              pl_status = ''pending'', pl_createdAt = 2000\<rparr>"

text \<open>Student s1 asks for a code at time 1000; parent p1 redeems it at time 2000.\<close>

definition ex_issue :: "env \<times> request" where
  "ex_issue = (ex_env, GetLinkingCode ''s1'' 1000 1000 (\<lambda>i. 0) ''c1'')"

definition ex_redeem :: "env \<times> request" where
  "ex_redeem = (ex_env, PostLinkRequest ''p1'' ''STU-AAAAAA'' 2000 ''l1'' 2000)"

definition ex_reject :: "env \<times> request" where
  "ex_reject = (ex_env, PatchLinkRequest ''l1'' ''rejected'')"

definition ex_approve :: "env \<times> request" where
  "ex_approve = (ex_env, PatchLinkRequest ''l1'' ''approved'')"

section \<open>Properties\<close>

subsection \<open>Evaluation of the concrete instances\<close>

lemma generate_zeros: "generateLinkingCode (\<lambda>i. 0) = ''STU-AAAAAA''"
  by (simp add: generateLinkingCode_def code_loop.simps charAt_def chars_def)

lemma generate_twos: "generateLinkingCode (\<lambda>i. 2) = ''STU-CCCCCC''"
  by (simp add: generateLinkingCode_def code_loop.simps charAt_def chars_def)

lemma run_issue: "run [ex_issue] empty_db = \<lparr>linking_codes = [ex_code], parent_student_links = []\<rparr>"
  by (simp add: ex_issue_def getLinkingCode_def empty_db_def insert_linking_code_def
      references_user_def ex_env_def generate_zeros ex_code_def Let_def)

lemma run_issue_redeem:
  "run [ex_issue, ex_redeem] empty_db = \<lparr>linking_codes = [ex_code], parent_student_links = [ex_link]\<rparr>"
proof -
  have "run [ex_issue, ex_redeem] empty_db = run [ex_redeem] (run [ex_issue] empty_db)"
    by (simp add: ex_issue_def)
  also have "\<dots> = \<lparr>linking_codes = [ex_code], parent_student_links = [ex_link]\<rparr>"
    unfolding run_issue
    by (simp add: ex_redeem_def postLinkRequest_def insert_link_def valid_at_def
        references_user_def ex_env_def ex_code_def ex_link_def link_pair_def)
  finally show ?thesis .
qed

lemma run_append: "run (h @ h') d = run h' (run h d)"
  by (induction h arbitrary: d) auto

lemma run_issue_redeem_reject:
  "run [ex_issue, ex_redeem, ex_reject] empty_db =
     \<lparr>linking_codes = [ex_code], parent_student_links = [ex_link\<lparr>pl_status := ''rejected''\<rparr>]\<rparr>"
proof -
  have "run [ex_issue, ex_redeem, ex_reject] empty_db = run [ex_reject] (run [ex_issue, ex_redeem] empty_db)"
    using run_append [of "[ex_issue, ex_redeem]" "[ex_reject]" empty_db] by simp
  also have "\<dots> = \<lparr>linking_codes = [ex_code], parent_student_links = [ex_link\<lparr>pl_status := ''rejected''\<rparr>]\<rparr>"
    unfolding run_issue_redeem
    by (simp add: ex_reject_def patchLinkRequest_def ex_link_def)
  finally show ?thesis .
qed

lemma run_issue_redeem_approve:
  "run [ex_issue, ex_redeem, ex_approve] empty_db =
     \<lparr>linking_codes = [ex_code\<lparr>lc_used := 1\<rparr>], parent_student_links = [ex_link\<lparr>pl_status := ''approved''\<rparr>]\<rparr>"
proof -
  have "run [ex_issue, ex_redeem, ex_approve] empty_db = run [ex_approve] (run [ex_issue, ex_redeem] empty_db)"
    using run_append [of "[ex_issue, ex_redeem]" "[ex_approve]" empty_db] by simp
  also have "\<dots> = \<lparr>linking_codes = [ex_code\<lparr>lc_used := 1\<rparr>], parent_student_links = [ex_link\<lparr>pl_status := ''approved''\<rparr>]\<rparr>"
    unfolding run_issue_redeem
    by (simp add: ex_approve_def patchLinkRequest_def ex_link_def ex_code_def)
  finally show ?thesis .
qed

subsection \<open>Redeeming a code that is unknown, used or expired\<close>

lemma postLinkRequest_not_found:
  assumes "\<not> (\<exists>r \<in> set (linking_codes d). lc_code r = code \<and> lc_used r = 0 \<and> now < lc_expiresAt r)"
  shows "postLinkRequest e parentId code now linkId createdAt d = (MessageJson 400 False InvalidOrExpiredCode, d)"
proof -
  have "find (\<lambda>r. lc_code r = code \<and> valid_at now r) (linking_codes d) = None"
    using assms by (auto simp: find_None_iff valid_at_def)
  then show ?thesis
    by (simp add: postLinkRequest_def)
qed

text \<open>
  C2. When no row of \<^verbatim>\<open>linking_codes\<close> has the submitted code with \<^verbatim>\<open>used = 0\<close> and
  \<^verbatim>\<open>expiresAt\<close> later than the clock read, the redemption answers status 400,
  \<^verbatim>\<open>success: false\<close> and the invalid-or-expired message, and the database (so
  \<^verbatim>\<open>parent_student_links\<close>) is what it was.
\<close>

theorem redeem_invalid_code:
  assumes "\<not> (\<exists>r \<in> set (linking_codes d). lc_code r = code \<and> lc_used r = 0 \<and> now < lc_expiresAt r)"
  shows "postLinkRequest e parentId code now linkId createdAt d = (MessageJson 400 False InvalidOrExpiredCode, d)
         \<and> parent_student_links (snd (postLinkRequest e parentId code now linkId createdAt d)) = parent_student_links d"
  using postLinkRequest_not_found [OF assms] by simp

text \<open>
  An instance: the code of s1 expired at 86401000, and p2 submits it at that very
  millisecond; another parent submits a code nobody was given.
\<close>

theorem redeem_invalid_code_witness:
  "postLinkRequest ex_env ''p2'' ''STU-AAAAAA'' 86401000 ''l2'' 86401000 (run [ex_issue, ex_redeem] empty_db)
     = (MessageJson 400 False InvalidOrExpiredCode, run [ex_issue, ex_redeem] empty_db)
   \<and> parent_student_links (snd (postLinkRequest ex_env ''p2'' ''STU-AAAAAA'' 86401000 ''l2'' 86401000
        (run [ex_issue, ex_redeem] empty_db))) = [ex_link]"
  using redeem_invalid_code [of "run [ex_issue, ex_redeem] empty_db" "''STU-AAAAAA''" 86401000 ex_env "''p2''" "''l2''" 86401000]
  by (simp add: run_issue_redeem ex_code_def)

subsection \<open>Effects of the handlers on the two tables\<close>

lemma insert_linking_code_Inr:
  "insert_linking_code e r t = Inr t' \<longleftrightarrow>
     (t' = t @ [r] \<and> lc_id r \<notin> set (map lc_id t) \<and> lc_code r \<notin> set (map lc_code t) \<and>
      references_user e (lc_studentId r))"
  by (auto simp: insert_linking_code_def)

lemma insert_link_Inr:
  "insert_link e l t = Inr t' \<longleftrightarrow>
     (t' = t @ [l] \<and> pl_id l \<notin> set (map pl_id t) \<and> link_pair l \<notin> set (map link_pair t) \<and>
      references_user e (pl_parentId l) \<and> references_user e (pl_studentId l))"
  by (auto simp: insert_link_def)

lemma getLinkingCode_links [simp]:
  "parent_student_links (snd (getLinkingCode e s now now' rnd newId d)) = parent_student_links d"
  by (simp add: getLinkingCode_def Let_def split: option.splits sum.splits)

lemma getLinkingCode_codes:
  "linking_codes (snd (getLinkingCode e s now now' rnd newId d)) = linking_codes d \<or>
   (find (\<lambda>r. lc_studentId r = s \<and> valid_at now r) (linking_codes d) = None \<and>
    lc_id \<lparr>lc_id = newId, lc_studentId = s, lc_code = generateLinkingCode rnd,
           lc_expiresAt = now' + 24 * 60 * 60 * 1000, lc_used = 0\<rparr> \<notin> set (map lc_id (linking_codes d)) \<and>
    generateLinkingCode rnd \<notin> set (map lc_code (linking_codes d)) \<and>
    linking_codes (snd (getLinkingCode e s now now' rnd newId d)) =
      linking_codes d @ [\<lparr>lc_id = newId, lc_studentId = s, lc_code = generateLinkingCode rnd,
                           lc_expiresAt = now' + 24 * 60 * 60 * 1000, lc_used = 0\<rparr>])"
  by (auto simp: getLinkingCode_def Let_def insert_linking_code_Inr split: option.splits sum.splits)

lemma postLinkRequest_codes [simp]:
  "linking_codes (snd (postLinkRequest e p c now linkId createdAt d)) = linking_codes d"
  by (simp add: postLinkRequest_def split: option.splits sum.splits)

lemma postLinkRequest_links:
  "parent_student_links (snd (postLinkRequest e p c now linkId createdAt d)) = parent_student_links d \<or>
   (\<exists>l. parent_student_links (snd (postLinkRequest e p c now linkId createdAt d)) = parent_student_links d @ [l] \<and>
        pl_id l \<notin> set (map pl_id (parent_student_links d)) \<and>
        link_pair l \<notin> set (map link_pair (parent_student_links d)) \<and>
        pl_status l = ''pending'')"
  by (auto simp: postLinkRequest_def insert_link_Inr split: option.splits sum.splits)

lemma getLinkRequests_db [simp]: "snd (getLinkRequests e s d) = d"
  by (simp add: getLinkRequests_def)

lemma patchLinkRequest_links:
  "parent_student_links (snd (patchLinkRequest rid status d)) =
     map (\<lambda>l. if pl_id l = rid then l\<lparr>pl_status := status\<rparr> else l) (parent_student_links d)"
  by (simp add: patchLinkRequest_def Let_def split: option.splits)

lemma patchLinkRequest_codes:
  "linking_codes (snd (patchLinkRequest rid status d)) = linking_codes d \<or>
   (\<exists>s. linking_codes (snd (patchLinkRequest rid status d)) =
          map (\<lambda>r. if lc_studentId r = s then r\<lparr>lc_used := 1\<rparr> else r) (linking_codes d))"
  by (auto simp: patchLinkRequest_def Let_def split: option.splits)

lemma status_update_comp [simp]:
  "pl_id \<circ> (\<lambda>l. if pl_id l = rid then l\<lparr>pl_status := status\<rparr> else l) = pl_id"
  "link_pair \<circ> (\<lambda>l. if pl_id l = rid then l\<lparr>pl_status := status\<rparr> else l) = link_pair"
  "link_key \<circ> (\<lambda>l. if pl_id l = rid then l\<lparr>pl_status := status\<rparr> else l) = link_key"
  by (auto simp: fun_eq_iff link_pair_def link_key_def)

lemma used_update_comp [simp]:
  "lc_id \<circ> (\<lambda>r. if lc_studentId r = s then r\<lparr>lc_used := 1\<rparr> else r) = lc_id"
  "lc_code \<circ> (\<lambda>r. if lc_studentId r = s then r\<lparr>lc_used := 1\<rparr> else r) = lc_code"
  by (auto simp: fun_eq_iff)

subsection \<open>The constraints of the schema hold in every reachable state\<close>

lemma constraints_hold_handle:
  assumes "constraints_hold d"
  shows "constraints_hold (snd (handle e q d))"
proof (cases q)
  case (GetLinkingCode s now now' rnd newId)
  then show ?thesis
    using assms getLinkingCode_codes [of e s now now' rnd newId d]
    by (auto simp: constraints_hold_def)
next
  case (PostLinkRequest p c now linkId createdAt)
  then show ?thesis
    using assms postLinkRequest_links [of e p c now linkId createdAt d]
    by (auto simp: constraints_hold_def)
next
  case (GetLinkRequests s)
  then show ?thesis using assms by simp
next
  case (PatchLinkRequest rid status)
  then show ?thesis
    using assms patchLinkRequest_codes [of rid status d]
    by (auto simp: constraints_hold_def patchLinkRequest_links)
qed

lemma constraints_hold_run: "constraints_hold d \<Longrightarrow> constraints_hold (run h d)"
  by (induction h arbitrary: d) (auto simp: constraints_hold_handle)

lemma constraints_hold_empty: "constraints_hold empty_db"
  by (simp add: constraints_hold_def empty_db_def)

lemma constraints_hold_reachable: "constraints_hold (run h empty_db)"
  by (simp add: constraints_hold_run constraints_hold_empty)

subsection \<open>Link rows are only appended\<close>

lemma link_keys_handle:
  "prefix (map link_key (parent_student_links d)) (map link_key (parent_student_links (snd (handle e q d))))"
proof (cases q)
  case (PostLinkRequest p c now linkId createdAt)
  then show ?thesis
    using postLinkRequest_links [of e p c now linkId createdAt d] by auto
qed (auto simp: patchLinkRequest_links)

lemma link_keys_run:
  "prefix (map link_key (parent_student_links d)) (map link_key (parent_student_links (run h d)))"
proof (induction h arbitrary: d)
  case Nil
  then show ?case by simp
next
  case (Cons a h)
  obtain e q where a: "a = (e, q)" by (cases a)
  have "prefix (map link_key (parent_student_links d)) (map link_key (parent_student_links (snd (handle e q d))))"
    by (rule link_keys_handle)
  also have "prefix \<dots> (map link_key (parent_student_links (run h (snd (handle e q d)))))"
    by (rule Cons.IH)
  finally show ?case by (simp add: a)
qed

subsection \<open>One link row for a parent and a student\<close>

lemma postLinkRequest_duplicate:
  assumes "find (\<lambda>r. lc_code r = code \<and> valid_at now r) (linking_codes d) = Some cd"
      and "l \<in> set (parent_student_links d)"
      and "pl_parentId l = parentId" and "pl_studentId l = lc_studentId cd"
  shows "postLinkRequest e parentId code now linkId createdAt d = (MessageJson 400 False LinkAlreadyExists, d)"
proof -
  let ?new = "\<lparr>pl_id = linkId, pl_parentId = parentId, pl_studentId = lc_studentId cd,
               pl_status = ''pending'', pl_createdAt = createdAt\<rparr>"
  have "link_pair ?new = link_pair l"
    using assms(3,4) by (simp add: link_pair_def)
  then have "link_pair ?new \<in> set (map link_pair (parent_student_links d))"
    using assms(2) by (metis image_eqI list.set_map)
  then have "insert_link e ?new (parent_student_links d) = Inl SqliteError"
    by (simp add: insert_link_def)
  then show ?thesis
    using assms(1) by (simp add: postLinkRequest_def)
qed

text \<open>
  C1. In every state a history of requests leads to, the (parentId, studentId)
  pairs of \<^verbatim>\<open>parent_student_links\<close> are pairwise different; rows keep their id,
  parent and student for ever and later rows are appended after them, so no pair
  ever gets a second row. A parent who submits a valid code of a student for
  whom the parent already has a row, whatever its status, is answered status
  400, \<^verbatim>\<open>success: false\<close> and the link-already-exists message, and nothing is
  written.
\<close>

theorem one_link_per_pair:
  "distinct (map link_pair (parent_student_links (run h empty_db))) \<and>
   prefix (map link_key (parent_student_links (run h empty_db)))
          (map link_key (parent_student_links (run (h @ h') empty_db))) \<and>
   (\<forall>l \<in> set (parent_student_links (run h empty_db)). \<forall>cd.
      find (\<lambda>r. lc_code r = code \<and> valid_at now r) (linking_codes (run h empty_db)) = Some cd \<and>
      pl_parentId l = parentId \<and> pl_studentId l = lc_studentId cd \<longrightarrow>
      postLinkRequest e parentId code now linkId createdAt (run h empty_db)
        = (MessageJson 400 False LinkAlreadyExists, run h empty_db))"
proof (intro conjI ballI allI impI)
  show "distinct (map link_pair (parent_student_links (run h empty_db)))"
    using constraints_hold_reachable [of h] by (simp add: constraints_hold_def)
  show "prefix (map link_key (parent_student_links (run h empty_db)))
          (map link_key (parent_student_links (run (h @ h') empty_db)))"
    by (simp add: run_append link_keys_run)
next
  fix l cd
  assume "l \<in> set (parent_student_links (run h empty_db))"
    and "find (\<lambda>r. lc_code r = code \<and> valid_at now r) (linking_codes (run h empty_db)) = Some cd \<and>
      pl_parentId l = parentId \<and> pl_studentId l = lc_studentId cd"
  then show "postLinkRequest e parentId code now linkId createdAt (run h empty_db)
        = (MessageJson 400 False LinkAlreadyExists, run h empty_db)"
    using postLinkRequest_duplicate by blast
qed

text \<open>
  An instance: s1 is given a code, p1 redeems it, s1 rejects the request, and p1
  submits the same code again.
\<close>

theorem one_link_per_pair_witness:
  "postLinkRequest ex_env ''p1'' ''STU-AAAAAA'' 3000 ''l2'' 3000 (run [ex_issue, ex_redeem, ex_reject] empty_db)
     = (MessageJson 400 False LinkAlreadyExists, run [ex_issue, ex_redeem, ex_reject] empty_db)
   \<and> map pl_status (parent_student_links (run [ex_issue, ex_redeem, ex_reject] empty_db)) = [''rejected'']"
  using one_link_per_pair [of "[ex_issue, ex_redeem, ex_reject]" "[]" "''STU-AAAAAA''" 3000 "''p1''" ex_env "''l2''" 3000]
  by (simp add: run_issue_redeem_reject ex_code_def ex_link_def valid_at_def)

subsection \<open>Codes that can no longer be redeemed\<close>

lemma spent_used_update:
  assumes "c \<in> set (map lc_code cs)" and "\<forall>r \<in> set cs. lc_code r = c \<longrightarrow> lc_used r \<noteq> 0"
  shows "c \<in> set (map lc_code (map (\<lambda>r. if lc_studentId r = s then r\<lparr>lc_used := 1\<rparr> else r) cs)) \<and>
         (\<forall>r \<in> set (map (\<lambda>r. if lc_studentId r = s then r\<lparr>lc_used := 1\<rparr> else r) cs).
            lc_code r = c \<longrightarrow> lc_used r \<noteq> 0)"
proof
  show "c \<in> set (map lc_code (map (\<lambda>r. if lc_studentId r = s then r\<lparr>lc_used := 1\<rparr> else r) cs))"
    using assms(1) by (simp del: set_map)
  show "\<forall>r \<in> set (map (\<lambda>r. if lc_studentId r = s then r\<lparr>lc_used := 1\<rparr> else r) cs).
            lc_code r = c \<longrightarrow> lc_used r \<noteq> 0"
    using assms(2) by (induction cs) auto
qed

lemma spent_handle:
  assumes "spent c d"
  shows "spent c (snd (handle e q d))"
proof (cases q)
  case (GetLinkingCode s now now' rnd newId)
  then show ?thesis
    using assms getLinkingCode_codes [of e s now now' rnd newId d]
    by (auto simp: spent_def)
next
  case (PostLinkRequest p c' now linkId createdAt)
  then show ?thesis using assms by (simp add: spent_def)
next
  case (GetLinkRequests s)
  then show ?thesis using assms by simp
next
  case (PatchLinkRequest rid status)
  from patchLinkRequest_codes [of rid status d]
  show ?thesis
  proof
    assume "linking_codes (snd (patchLinkRequest rid status d)) = linking_codes d"
    then show ?thesis
      using assms PatchLinkRequest by (simp add: spent_def)
  next
    assume "\<exists>s. linking_codes (snd (patchLinkRequest rid status d)) =
          map (\<lambda>r. if lc_studentId r = s then r\<lparr>lc_used := 1\<rparr> else r) (linking_codes d)"
    then obtain s where "linking_codes (snd (patchLinkRequest rid status d)) =
          map (\<lambda>r. if lc_studentId r = s then r\<lparr>lc_used := 1\<rparr> else r) (linking_codes d)" ..
    then show ?thesis
      using assms PatchLinkRequest spent_used_update [of c "linking_codes d" s]
      by (simp add: spent_def)
  qed
qed

lemma spent_run: "spent c d \<Longrightarrow> spent c (run h d)"
  by (induction h arbitrary: d) (auto simp: spent_handle)

lemma spent_not_redeemable:
  assumes "spent c d"
  shows "postLinkRequest e p c now linkId createdAt d = (MessageJson 400 False InvalidOrExpiredCode, d)"
  using assms by (intro postLinkRequest_not_found) (auto simp: spent_def)

lemma find_by_id:
  assumes "distinct (map pl_id ls)" and "R \<in> set ls"
  shows "find (\<lambda>l. pl_id l = pl_id R) (map (\<lambda>l. if pl_id l = pl_id R then l\<lparr>pl_status := st\<rparr> else l) ls)
           = Some (R\<lparr>pl_status := st\<rparr>)"
  using assms
proof (induction ls)
  case Nil
  then show ?case by simp
next
  case (Cons a ls)
  then show ?case by (cases "a = R") (auto simp: rev_image_eqI)
qed

lemma patchLinkRequest_approved:
  assumes "distinct (map pl_id (parent_student_links d))" and "R \<in> set (parent_student_links d)"
  shows "patchLinkRequest (pl_id R) ''approved'' d =
           (SuccessJson,
            \<lparr>linking_codes = map (\<lambda>r. if lc_studentId r = pl_studentId R then r\<lparr>lc_used := 1\<rparr> else r) (linking_codes d),
             parent_student_links = map (\<lambda>l. if pl_id l = pl_id R then l\<lparr>pl_status := ''approved''\<rparr> else l)
                                        (parent_student_links d)\<rparr>)"
  using find_by_id [OF assms, of "''approved''"]
  by (simp add: patchLinkRequest_def Let_def)

lemma spent_after_update:
  assumes "distinct (map lc_code cs)" and "r \<in> set cs" and "lc_studentId r = s"
      and "r' \<in> set (map (\<lambda>r. if lc_studentId r = s then r\<lparr>lc_used := 1\<rparr> else r) cs)"
      and "lc_code r' = lc_code r"
  shows "lc_used r' \<noteq> 0"
proof -
  obtain r0 where r0: "r0 \<in> set cs" "r' = (if lc_studentId r0 = s then r0\<lparr>lc_used := 1\<rparr> else r0)"
    using assms(4) by auto
  then have "lc_code r0 = lc_code r"
    using assms(5) by (auto split: if_splits)
  then have "r0 = r"
    using assms(1,2) r0(1) by (meson distinct_map inj_onD)
  then show ?thesis
    using r0(2) assms(3) by simp
qed

text \<open>
  C3. Take any state a history of requests leads to and any link request R in
  it. The approval of R answers \<^verbatim>\<open>success: true\<close>; after it every row of
  \<^verbatim>\<open>linking_codes\<close> of R's student has \<^verbatim>\<open>used = 1\<close>; and whatever requests follow,
  a redemption of any code that was stored for that student at the approval is
  answered status 400, \<^verbatim>\<open>success: false\<close> and the invalid-or-expired message, by
  whomever and whenever it is submitted.
\<close>

theorem approval_spends_all_codes:
  assumes "R \<in> set (parent_student_links (run h empty_db))"
      and "patchLinkRequest (pl_id R) ''approved'' (run h empty_db) = (resp, d1)"
  shows "resp = SuccessJson \<and>
         (\<forall>r \<in> set (linking_codes d1). lc_studentId r = pl_studentId R \<longrightarrow> lc_used r = 1) \<and>
         (\<forall>r \<in> set (linking_codes (run h empty_db)). lc_studentId r = pl_studentId R \<longrightarrow>
            postLinkRequest e p (lc_code r) now linkId createdAt (run h' d1)
              = (MessageJson 400 False InvalidOrExpiredCode, run h' d1))"
proof -
  let ?d = "run h empty_db"
  let ?upd = "\<lambda>r. if lc_studentId r = pl_studentId R then r\<lparr>lc_used := 1\<rparr> else r"
  have ch: "constraints_hold ?d"
    by (rule constraints_hold_reachable)
  then have ids: "distinct (map pl_id (parent_student_links ?d))"
    and codes: "distinct (map lc_code (linking_codes ?d))"
    by (simp_all add: constraints_hold_def)
  from patchLinkRequest_approved [OF ids assms(1)] assms(2)
  have resp: "resp = SuccessJson" and d1: "linking_codes d1 = map ?upd (linking_codes ?d)"
    by auto
  have used: "\<forall>r \<in> set (linking_codes d1). lc_studentId r = pl_studentId R \<longrightarrow> lc_used r = 1"
    unfolding d1 by auto
  have later: "postLinkRequest e p (lc_code r) now linkId createdAt (run h' d1)
              = (MessageJson 400 False InvalidOrExpiredCode, run h' d1)"
    if r: "r \<in> set (linking_codes ?d)" "lc_studentId r = pl_studentId R" for r
  proof -
    have "lc_code r \<in> set (map lc_code (linking_codes d1))"
      unfolding d1 using r(1) by (simp add: rev_image_eqI)
    moreover have "\<forall>r' \<in> set (linking_codes d1). lc_code r' = lc_code r \<longrightarrow> lc_used r' \<noteq> 0"
      unfolding d1 using spent_after_update [OF codes r] by blast
    ultimately have "spent (lc_code r) d1"
      by (simp add: spent_def)
    then have "spent (lc_code r) (run h' d1)"
      by (rule spent_run)
    then show ?thesis
      by (rule spent_not_redeemable)
  qed
  show ?thesis
    using resp used later by blast
qed

text \<open>
  An instance: s1 approves the request of p1; then p2 submits the code of s1,
  still before its expiry.
\<close>

theorem approval_spends_all_codes_witness:
  "map lc_used (linking_codes (run [ex_issue, ex_redeem, ex_approve] empty_db)) = [1] \<and>
   postLinkRequest ex_env ''p2'' ''STU-AAAAAA'' 3000 ''l2'' 3000 (run [ex_issue, ex_redeem, ex_approve] empty_db)
     = (MessageJson 400 False InvalidOrExpiredCode, run [ex_issue, ex_redeem, ex_approve] empty_db)"
proof -
  let ?d1 = "\<lparr>linking_codes = [ex_code\<lparr>lc_used := 1\<rparr>],
              parent_student_links = [ex_link\<lparr>pl_status := ''approved''\<rparr>]\<rparr>"
  have R: "ex_link \<in> set (parent_student_links (run [ex_issue, ex_redeem] empty_db))"
    by (simp add: run_issue_redeem)
  have step: "patchLinkRequest (pl_id ex_link) ''approved'' (run [ex_issue, ex_redeem] empty_db) = (SuccessJson, ?d1)"
    by (simp add: run_issue_redeem patchLinkRequest_def ex_link_def ex_code_def)
  have r: "ex_code \<in> set (linking_codes (run [ex_issue, ex_redeem] empty_db))"
    by (simp add: run_issue_redeem)
  have s: "lc_studentId ex_code = pl_studentId ex_link"
    by (simp add: ex_code_def ex_link_def)
  from approval_spends_all_codes [OF R step, of ex_env "''p2''" 3000 "''l2''" 3000 "[]"] r s
  have "postLinkRequest ex_env ''p2'' (lc_code ex_code) 3000 ''l2'' 3000 ?d1
          = (MessageJson 400 False InvalidOrExpiredCode, ?d1)"
    by auto
  then show ?thesis
    by (simp add: run_issue_redeem_approve ex_code_def)
qed

subsection \<open>The status of a link request\<close>

text \<open>
  C4, as the claim states it, fails: s1 approves the request of p1, which is then
  in a terminal state, and the next PATCH with \<^verbatim>\<open>rejected\<close> changes it again.
\<close>

theorem status_changes_after_approval:
  "map pl_status (parent_student_links (run [ex_issue, ex_redeem, ex_approve] empty_db)) = [''approved''] \<and>
   map pl_status (parent_student_links (run ([ex_issue, ex_redeem, ex_approve] @ [ex_reject]) empty_db)) = [''rejected'']"
proof -
  have "run ([ex_issue, ex_redeem, ex_approve] @ [ex_reject]) empty_db
          = run [ex_reject] (run [ex_issue, ex_redeem, ex_approve] empty_db)"
    by (rule run_append)
  then show ?thesis
    by (simp add: run_issue_redeem_approve ex_reject_def patchLinkRequest_def ex_link_def)
qed

text \<open>
  C4, amended. A link request is created with status pending. Every request
  leaves the rows that exist in place, and changes of them only the status of
  the row whose id a PATCH names, which becomes the status the PATCH carries,
  whatever it was before: the UPDATE of line 305 does not look at the current
  status.
\<close>

theorem status_written_by_patch_only:
  "\<exists>new. parent_student_links (snd (handle e q d)) = map (decided q) (parent_student_links d) @ new \<and>
         (\<forall>l \<in> set new. pl_status l = ''pending'')"
proof (cases q)
  case (GetLinkingCode s now now' rnd newId)
  have "map (decided q) (parent_student_links d) = parent_student_links d"
    unfolding GetLinkingCode by (induction "parent_student_links d") auto
  then show ?thesis
    using GetLinkingCode by simp
next
  case (PostLinkRequest p c now linkId createdAt)
  have "map (decided q) (parent_student_links d) = parent_student_links d"
    unfolding PostLinkRequest by (simp add: map_idI)
  then show ?thesis
    using PostLinkRequest postLinkRequest_links [of e p c now linkId createdAt d] by auto
next
  case (GetLinkRequests s)
  have "map (decided q) (parent_student_links d) = parent_student_links d"
    unfolding GetLinkRequests by (simp add: map_idI)
  then show ?thesis
    using GetLinkRequests by simp
next
  case (PatchLinkRequest rid status)
  have "decided q = (\<lambda>l. if pl_id l = rid then l\<lparr>pl_status := status\<rparr> else l)"
    unfolding PatchLinkRequest by (simp add: fun_eq_iff)
  then have "parent_student_links (snd (handle e q d)) = map (decided q) (parent_student_links d) @ []"
    using PatchLinkRequest by (simp add: patchLinkRequest_links)
  then show ?thesis
    by (intro exI [of _ "[]"]) simp
qed

text \<open>An instance: the redemption of p1 appends a pending row; the rejection rewrites it.\<close>

theorem status_written_by_patch_only_witness:
  "parent_student_links (snd (handle ex_env (PostLinkRequest ''p1'' ''STU-AAAAAA'' 2000 ''l1'' 2000) (run [ex_issue] empty_db)))
     = [ex_link] \<and>
   parent_student_links (snd (handle ex_env (PatchLinkRequest ''l1'' ''rejected'') (run [ex_issue, ex_redeem] empty_db)))
     = [ex_link\<lparr>pl_status := ''rejected''\<rparr>]"
proof -
  have a: "parent_student_links (snd (handle ex_env (PostLinkRequest ''p1'' ''STU-AAAAAA'' 2000 ''l1'' 2000) (run [ex_issue] empty_db)))
     = [ex_link]"
    by (simp add: run_issue postLinkRequest_def insert_link_def valid_at_def
        references_user_def ex_env_def ex_code_def ex_link_def link_pair_def)
  from status_written_by_patch_only [of ex_env "PatchLinkRequest ''l1'' ''rejected''" "run [ex_issue, ex_redeem] empty_db"]
  obtain new' where n: "parent_student_links (snd (handle ex_env (PatchLinkRequest ''l1'' ''rejected'') (run [ex_issue, ex_redeem] empty_db)))
      = map (decided (PatchLinkRequest ''l1'' ''rejected'')) (parent_student_links (run [ex_issue, ex_redeem] empty_db)) @ new'"
    by blast
  have "length (parent_student_links (snd (handle ex_env (PatchLinkRequest ''l1'' ''rejected'') (run [ex_issue, ex_redeem] empty_db)))) = 1"
    by (simp add: patchLinkRequest_links run_issue_redeem)
  with n have "new' = []"
    by (simp add: run_issue_redeem)
  with n have b: "parent_student_links (snd (handle ex_env (PatchLinkRequest ''l1'' ''rejected'') (run [ex_issue, ex_redeem] empty_db)))
     = [ex_link\<lparr>pl_status := ''rejected''\<rparr>]"
    by (simp add: run_issue_redeem ex_link_def)
  show ?thesis
    using a b by simp
qed

subsection \<open>Deciding on an id that no row has\<close>

text \<open>
  C6. The approval of an id without a row: the UPDATE of line 305 touches nothing,
  the SELECT of line 309 returns \<^verbatim>\<open>undefined\<close>, and \<^verbatim>\<open>link.studentId\<close> throws a
  TypeError that no handler catches. No structured not-found answer is produced.
\<close>

theorem approve_unknown_id_throws:
  "patchLinkRequest ''no-such-id'' ''approved'' (run [ex_issue, ex_redeem] empty_db)
     = (Unhandled TypeError, run [ex_issue, ex_redeem] empty_db)"
  by (simp add: run_issue_redeem patchLinkRequest_def ex_link_def)

subsection \<open>Rejecting a request\<close>

lemma status_update_by_id:
  assumes "distinct (map pl_id ls)" and "R \<in> set ls"
  shows "map (\<lambda>l. if pl_id l = pl_id R then l\<lparr>pl_status := st\<rparr> else l) ls
           = map (\<lambda>l. if l = R then l\<lparr>pl_status := st\<rparr> else l) ls"
proof (rule map_cong)
  fix l
  assume "l \<in> set ls"
  then have "pl_id l = pl_id R \<longleftrightarrow> l = R"
    using assms by (meson distinct_map inj_onD)
  then show "(if pl_id l = pl_id R then l\<lparr>pl_status := st\<rparr> else l) = (if l = R then l\<lparr>pl_status := st\<rparr> else l)"
    by simp
qed simp

lemma postLinkRequest_success:
  assumes "find (\<lambda>r. lc_code r = code \<and> valid_at now r) (linking_codes d) = Some cd"
      and "linkId \<notin> set (map pl_id (parent_student_links d))"
      and "(p, lc_studentId cd) \<notin> set (map link_pair (parent_student_links d))"
      and "references_user e p" and "references_user e (lc_studentId cd)"
  shows "postLinkRequest e p code now linkId createdAt d =
           (MessageJson 200 True LinkRequestSent,
            d\<lparr>parent_student_links := parent_student_links d @
                 [\<lparr>pl_id = linkId, pl_parentId = p, pl_studentId = lc_studentId cd,
                   pl_status = ''pending'', pl_createdAt = createdAt\<rparr>]\<rparr>)"
  using assms by (simp add: postLinkRequest_def insert_link_def link_pair_def)

text \<open>
  C8. Take any state a history of requests leads to and any link request R in
  it. The rejection of R answers \<^verbatim>\<open>success: true\<close>, leaves \<^verbatim>\<open>linking_codes\<close>
  as it is, and changes of \<^verbatim>\<open>parent_student_links\<close> only the status of R. A code
  that the lookup of line 264 accepted before the rejection is therefore still
  accepted after it: a parent who has no row for the code's student (and whose
  INSERT meets the other constraints of the table) redeems it and gets a pending
  request.
\<close>

theorem rejection_keeps_codes:
  assumes "R \<in> set (parent_student_links (run h empty_db))"
  shows "patchLinkRequest (pl_id R) ''rejected'' (run h empty_db) =
           (SuccessJson,
            (run h empty_db)\<lparr>parent_student_links :=
               map (\<lambda>l. if l = R then l\<lparr>pl_status := ''rejected''\<rparr> else l) (parent_student_links (run h empty_db))\<rparr>) \<and>
         linking_codes (snd (patchLinkRequest (pl_id R) ''rejected'' (run h empty_db))) = linking_codes (run h empty_db) \<and>
         (\<forall>cd. find (\<lambda>r. lc_code r = code \<and> valid_at now r) (linking_codes (run h empty_db)) = Some cd \<and>
               linkId \<notin> set (map pl_id (parent_student_links (run h empty_db))) \<and>
               (p, lc_studentId cd) \<notin> set (map link_pair (parent_student_links (run h empty_db))) \<and>
               references_user e p \<and> references_user e (lc_studentId cd) \<longrightarrow>
               (\<exists>d2. postLinkRequest e p code now linkId createdAt (snd (patchLinkRequest (pl_id R) ''rejected'' (run h empty_db)))
                       = (MessageJson 200 True LinkRequestSent, d2) \<and>
                     linking_codes d2 = linking_codes (run h empty_db) \<and>
                     parent_student_links d2 =
                       map (\<lambda>l. if l = R then l\<lparr>pl_status := ''rejected''\<rparr> else l) (parent_student_links (run h empty_db)) @
                       [\<lparr>pl_id = linkId, pl_parentId = p, pl_studentId = lc_studentId cd,
                         pl_status = ''pending'', pl_createdAt = createdAt\<rparr>]))"
proof -
  let ?d = "run h empty_db"
  let ?ls = "map (\<lambda>l. if l = R then l\<lparr>pl_status := ''rejected''\<rparr> else l) (parent_student_links ?d)"
  let ?d1 = "?d\<lparr>parent_student_links := ?ls\<rparr>"
  have ids: "distinct (map pl_id (parent_student_links ?d))"
    using constraints_hold_reachable [of h] by (simp add: constraints_hold_def)
  have ls: "map (\<lambda>l. if pl_id l = pl_id R then l\<lparr>pl_status := ''rejected''\<rparr> else l) (parent_student_links ?d) = ?ls"
    by (rule status_update_by_id [OF ids assms])
  have step: "patchLinkRequest (pl_id R) ''rejected'' ?d = (SuccessJson, ?d1)"
    by (simp add: patchLinkRequest_def Let_def ls)
  have keys: "map pl_id ?ls = map pl_id (parent_student_links ?d)"
             "map link_pair ?ls = map link_pair (parent_student_links ?d)"
    unfolding ls [symmetric] by simp_all
  have redeem: "\<exists>d2. postLinkRequest e p code now linkId createdAt ?d1 = (MessageJson 200 True LinkRequestSent, d2) \<and>
                     linking_codes d2 = linking_codes ?d \<and>
                     parent_student_links d2 = ?ls @
                       [\<lparr>pl_id = linkId, pl_parentId = p, pl_studentId = lc_studentId cd,
                         pl_status = ''pending'', pl_createdAt = createdAt\<rparr>]"
    if "find (\<lambda>r. lc_code r = code \<and> valid_at now r) (linking_codes ?d) = Some cd"
      and "linkId \<notin> set (map pl_id (parent_student_links ?d))"
      and "(p, lc_studentId cd) \<notin> set (map link_pair (parent_student_links ?d))"
      and "references_user e p" and "references_user e (lc_studentId cd)" for cd
  proof -
    have "postLinkRequest e p code now linkId createdAt ?d1 =
           (MessageJson 200 True LinkRequestSent,
            ?d1\<lparr>parent_student_links := parent_student_links ?d1 @
                 [\<lparr>pl_id = linkId, pl_parentId = p, pl_studentId = lc_studentId cd,
                   pl_status = ''pending'', pl_createdAt = createdAt\<rparr>]\<rparr>)"
      using that keys by (intro postLinkRequest_success) simp_all
    then show ?thesis by simp
  qed
  show ?thesis
    unfolding step using redeem by simp
qed

text \<open>
  An instance: s1 rejects the request of p1; p2 then redeems the same code and
  gets a pending request of its own.
\<close>

theorem rejection_keeps_codes_witness:
  "linking_codes (run [ex_issue, ex_redeem, ex_reject] empty_db) = [ex_code] \<and>
   lc_used ex_code = 0 \<and>
   postLinkRequest ex_env ''p2'' ''STU-AAAAAA'' 3000 ''l2'' 3000 (run [ex_issue, ex_redeem, ex_reject] empty_db)
     = (MessageJson 200 True LinkRequestSent,
        \<lparr>linking_codes = [ex_code],
         parent_student_links = [ex_link\<lparr>pl_status := ''rejected''\<rparr>,
            \<lparr>pl_id = ''l2'', pl_parentId = ''p2'', pl_studentId = ''s1'', pl_status = ''pending'', pl_createdAt = 3000\<rparr>]\<rparr>)"
proof -
  have R: "ex_link \<in> set (parent_student_links (run [ex_issue, ex_redeem] empty_db))"
    by (simp add: run_issue_redeem)
  have step: "snd (patchLinkRequest (pl_id ex_link) ''rejected'' (run [ex_issue, ex_redeem] empty_db))
                = run [ex_issue, ex_redeem, ex_reject] empty_db"
    by (simp add: run_issue_redeem run_issue_redeem_reject patchLinkRequest_def ex_link_def)
  have pre: "find (\<lambda>r. lc_code r = ''STU-AAAAAA'' \<and> valid_at 3000 r) (linking_codes (run [ex_issue, ex_redeem] empty_db)) = Some ex_code \<and>
             ''l2'' \<notin> set (map pl_id (parent_student_links (run [ex_issue, ex_redeem] empty_db))) \<and>
             (''p2'', lc_studentId ex_code) \<notin> set (map link_pair (parent_student_links (run [ex_issue, ex_redeem] empty_db))) \<and>
             references_user ex_env ''p2'' \<and> references_user ex_env (lc_studentId ex_code)"
    by (simp add: run_issue_redeem ex_code_def ex_link_def valid_at_def link_pair_def references_user_def ex_env_def)
  from rejection_keeps_codes [OF R, of "''STU-AAAAAA''" 3000 "''l2''" "''p2''" ex_env 3000] pre
  obtain d2 where d2: "postLinkRequest ex_env ''p2'' ''STU-AAAAAA'' 3000 ''l2'' 3000
                         (snd (patchLinkRequest (pl_id ex_link) ''rejected'' (run [ex_issue, ex_redeem] empty_db)))
                       = (MessageJson 200 True LinkRequestSent, d2)"
      "linking_codes d2 = linking_codes (run [ex_issue, ex_redeem] empty_db)"
      "parent_student_links d2 =
         map (\<lambda>l. if l = ex_link then l\<lparr>pl_status := ''rejected''\<rparr> else l) (parent_student_links (run [ex_issue, ex_redeem] empty_db)) @
         [\<lparr>pl_id = ''l2'', pl_parentId = ''p2'', pl_studentId = lc_studentId ex_code,
           pl_status = ''pending'', pl_createdAt = 3000\<rparr>]"
    by blast
  have "d2 = \<lparr>linking_codes = [ex_code],
         parent_student_links = [ex_link\<lparr>pl_status := ''rejected''\<rparr>,
            \<lparr>pl_id = ''l2'', pl_parentId = ''p2'', pl_studentId = ''s1'', pl_status = ''pending'', pl_createdAt = 3000\<rparr>]\<rparr>"
    using d2(2,3) by (cases d2) (simp add: run_issue_redeem ex_code_def)
  then show ?thesis
    using d2(1) unfolding step by (simp add: run_issue_redeem_reject ex_code_def)
qed

subsection \<open>The pending requests of a student\<close>

lemma matching_users:
  assumes "distinct (map u_id us)"
  shows "map (\<lambda>u. l) (filter (\<lambda>u. pid = u_id u) us) = (if pid \<in> set (map u_id us) then [l] else [])"
  using assms
proof (induction us)
  case Nil
  then show ?case by simp
next
  case (Cons u us)
  show ?case
  proof (cases "pid = u_id u")
    case True
    then have "pid \<notin> set (map u_id us)"
      using Cons.prems by simp
    then have "filter (\<lambda>u. pid = u_id u) us = []"
      by (auto simp: filter_empty_conv)
    then show ?thesis
      using True by simp
  next
    case False
    then show ?thesis
      using Cons by simp
  qed
qed

lemma join_links:
  assumes "distinct (map u_id us)"
  shows "map pr_link (concat (map (\<lambda>l. map (\<lambda>u. \<lparr>pr_link = l, pr_parentName = u_fullName u, pr_parentEmail = u_email u\<rparr>)
                                         (filter (\<lambda>u. pl_parentId l = u_id u) us)) ls))
           = filter (\<lambda>l. pl_parentId l \<in> set (map u_id us)) ls"
proof (induction ls)
  case Nil
  then show ?case by simp
next
  case (Cons l ls)
  have "map pr_link (map (\<lambda>u. \<lparr>pr_link = l, pr_parentName = u_fullName u, pr_parentEmail = u_email u\<rparr>)
                         (filter (\<lambda>u. pl_parentId l = u_id u) us))
          = map (\<lambda>u. l) (filter (\<lambda>u. pl_parentId l = u_id u) us)"
    by simp
  also have "\<dots> = (if pl_parentId l \<in> set (map u_id us) then [l] else [])"
    by (rule matching_users [OF assms])
  finally show ?case
    using Cons.IH by simp
qed

text \<open>
  C10. With the ids of \<^verbatim>\<open>users\<close> pairwise different (\<^verbatim>\<open>id TEXT PRIMARY KEY\<close>), the
  answer lists, in table order and once each, exactly the rows of
  \<^verbatim>\<open>parent_student_links\<close> of the student with status pending whose parentId is
  the id of a \<^verbatim>\<open>users\<close> row; each carries the fullName and email of that row; a
  pending row whose parentId is no user's id is not in the answer; and the
  database is not written.
\<close>

theorem pending_requests_joined:
  assumes "distinct (map u_id (users e))"
  shows "\<exists>rows. getLinkRequests e s d = (RowsJson rows, d) \<and>
           map pr_link rows =
             filter (\<lambda>l. pl_studentId l = s \<and> pl_status l = ''pending'' \<and> pl_parentId l \<in> set (map u_id (users e)))
                    (parent_student_links d) \<and>
           (\<forall>row \<in> set rows. \<exists>u \<in> set (users e).
              u_id u = pl_parentId (pr_link row) \<and> pr_parentName row = u_fullName u \<and> pr_parentEmail row = u_email u) \<and>
           (\<forall>l \<in> set (parent_student_links d). pl_parentId l \<notin> set (map u_id (users e)) \<longrightarrow> l \<notin> set (map pr_link rows))"
proof -
  let ?pending = "filter (\<lambda>l. pl_studentId l = s \<and> pl_status l = ''pending'') (parent_student_links d)"
  let ?rows = "concat (map (\<lambda>l. map (\<lambda>u. \<lparr>pr_link = l, pr_parentName = u_fullName u, pr_parentEmail = u_email u\<rparr>)
                                  (filter (\<lambda>u. pl_parentId l = u_id u) (users e))) ?pending)"
  have answer: "getLinkRequests e s d = (RowsJson ?rows, d)"
    by (simp add: getLinkRequests_def)
  have "map pr_link ?rows = filter (\<lambda>l. pl_parentId l \<in> set (map u_id (users e))) ?pending"
    by (rule join_links [OF assms])
  then have links: "map pr_link ?rows =
             filter (\<lambda>l. pl_studentId l = s \<and> pl_status l = ''pending'' \<and> pl_parentId l \<in> set (map u_id (users e)))
                    (parent_student_links d)"
    by (simp add: conj_commute conj_left_commute)
  have parents: "\<forall>row \<in> set ?rows. \<exists>u \<in> set (users e).
              u_id u = pl_parentId (pr_link row) \<and> pr_parentName row = u_fullName u \<and> pr_parentEmail row = u_email u"
    by auto
  have omitted: "\<forall>l \<in> set (parent_student_links d). pl_parentId l \<notin> set (map u_id (users e)) \<longrightarrow> l \<notin> set (map pr_link ?rows)"
    unfolding links by simp
  show ?thesis
    using answer links parents omitted by blast
qed

text \<open>
  An instance: p1 and a parent p9 whose account is not in \<^verbatim>\<open>users\<close> both have a
  pending request for s1; the answer has the row of p1 only.
\<close>

theorem pending_requests_joined_witness:
  "getLinkRequests ex_env ''s1''
      \<lparr>linking_codes = [ex_code],
       parent_student_links = [ex_link, ex_link\<lparr>pl_id := ''l9'', pl_parentId := ''p9''\<rparr>]\<rparr>
     = (RowsJson [\<lparr>pr_link = ex_link, pr_parentName = ''Parent One'', pr_parentEmail = ''p1@example.org''\<rparr>],
        \<lparr>linking_codes = [ex_code],
         parent_student_links = [ex_link, ex_link\<lparr>pl_id := ''l9'', pl_parentId := ''p9''\<rparr>]\<rparr>)"
proof -
  let ?d = "\<lparr>linking_codes = [ex_code],
       parent_student_links = [ex_link, ex_link\<lparr>pl_id := ''l9'', pl_parentId := ''p9''\<rparr>]\<rparr>"
  have ids: "distinct (map u_id (users ex_env))"
    by (simp add: ex_env_def)
  from pending_requests_joined [OF ids, of "''s1''" ?d]
  obtain rows where rows: "getLinkRequests ex_env ''s1'' ?d = (RowsJson rows, ?d)"
    and links: "map pr_link rows =
             filter (\<lambda>l. pl_studentId l = ''s1'' \<and> pl_status l = ''pending'' \<and> pl_parentId l \<in> set (map u_id (users ex_env)))
                    (parent_student_links ?d)"
    and parents: "\<forall>row \<in> set rows. \<exists>u \<in> set (users ex_env).
              u_id u = pl_parentId (pr_link row) \<and> pr_parentName row = u_fullName u \<and> pr_parentEmail row = u_email u"
    by blast
  from links have "map pr_link rows = [ex_link]"
    by (simp add: ex_env_def ex_link_def)
  then obtain row where row: "rows = [row]" "pr_link row = ex_link"
    by auto
  with parents have "pr_parentName row = ''Parent One'' \<and> pr_parentEmail row = ''p1@example.org''"
    by (auto simp: ex_env_def ex_link_def)
  with row have "rows = [\<lparr>pr_link = ex_link, pr_parentName = ''Parent One'', pr_parentEmail = ''p1@example.org''\<rparr>]"
    by (cases row) simp
  with rows show ?thesis by simp
qed

subsection \<open>Issuing a new code\<close>

lemma generateLinkingCode_unfolded:
  "generateLinkingCode rnd =
     ''STU-'' @ charAt chars (rnd 0) @ charAt chars (rnd 1) @ charAt chars (rnd 2) @
     charAt chars (rnd 3) @ charAt chars (rnd 4) @ charAt chars (rnd 5)"
proof -
  have n: "Suc (Suc 0) = 2" "Suc (Suc (Suc 0)) = 3" "Suc (Suc (Suc (Suc 0))) = 4"
    "Suc (Suc (Suc (Suc (Suc 0)))) = 5"
    by simp_all
  show ?thesis
    by (simp add: generateLinkingCode_def code_loop.simps n)
qed

lemma generateLinkingCode_length:
  assumes "rnd 0 < 32" "rnd 1 < 32" "rnd 2 < 32" "rnd 3 < 32" "rnd 4 < 32" "rnd 5 < 32"
  shows "length (generateLinkingCode rnd) = 10"
proof -
  have "length (charAt chars i) = 1" if "i < 32" for i
    using that by (simp add: charAt_def chars_def)
  then show ?thesis
    using assms by (simp add: generateLinkingCode_unfolded)
qed

lemma getLinkingCode_none_valid:
  assumes "find (\<lambda>r. lc_studentId r = s \<and> valid_at now r) (linking_codes d) = None"
  shows "getLinkingCode e s now now' rnd newId d =
           (if newId \<notin> set (map lc_id (linking_codes d)) \<and>
               generateLinkingCode rnd \<notin> set (map lc_code (linking_codes d)) \<and> references_user e s
            then (CodeJson (generateLinkingCode rnd) (now' + 86400000),
                  d\<lparr>linking_codes := linking_codes d @
                       [\<lparr>lc_id = newId, lc_studentId = s, lc_code = generateLinkingCode rnd,
                         lc_expiresAt = now' + 86400000, lc_used = 0\<rparr>]\<rparr>)
            else (Unhandled SqliteError, d))"
  using assms by (simp add: getLinkingCode_def Let_def insert_linking_code_def)

lemma find_none_valid:
  "find (\<lambda>r. lc_studentId r = s \<and> valid_at now r) cs = None \<longleftrightarrow>
     \<not> (\<exists>r \<in> set cs. lc_studentId r = s \<and> lc_used r = 0 \<and> now < lc_expiresAt r)"
  by (auto simp: find_None_iff valid_at_def)

text \<open>
  C7, as the claim states it, fails. After the approval of p1's request s1 has no
  valid code and asks for one; the generator draws the code that is already
  stored. A second run of the generator (draws all 2) would give a code that is
  not stored, but there is no second run: the exception of the INSERT leaves the
  handler and nothing is issued.
\<close>

theorem collision_is_not_retried:
  "generateLinkingCode (\<lambda>i. 2) \<notin> set (map lc_code (linking_codes (run [ex_issue, ex_redeem, ex_approve] empty_db))) \<and>
   getLinkingCode ex_env ''s1'' 3000 3000 (\<lambda>i. 0) ''c2'' (run [ex_issue, ex_redeem, ex_approve] empty_db)
     = (Unhandled SqliteError, run [ex_issue, ex_redeem, ex_approve] empty_db)"
  by (simp add: run_issue_redeem_approve generate_twos generate_zeros getLinkingCode_def Let_def
      insert_linking_code_def valid_at_def ex_code_def)

text \<open>
  C7, amended. For a student without a valid code the handler generates one code
  and runs one INSERT. When the generated code is already stored, the INSERT
  fails on the UNIQUE constraint, nothing is stored and no code is returned;
  there is no retry. The request returns a code exactly when the generated code
  and the generated row id are not stored yet and the student passes the foreign
  key check.
\<close>

theorem issue_is_one_attempt:
  assumes "\<not> (\<exists>r \<in> set (linking_codes d). lc_studentId r = s \<and> lc_used r = 0 \<and> now < lc_expiresAt r)"
  shows "(generateLinkingCode rnd \<in> set (map lc_code (linking_codes d)) \<longrightarrow>
            getLinkingCode e s now now' rnd newId d = (Unhandled SqliteError, d)) \<and>
         ((\<exists>c x d'. getLinkingCode e s now now' rnd newId d = (CodeJson c x, d')) \<longleftrightarrow>
            (newId \<notin> set (map lc_id (linking_codes d)) \<and>
             generateLinkingCode rnd \<notin> set (map lc_code (linking_codes d)) \<and> references_user e s))"
proof -
  have "find (\<lambda>r. lc_studentId r = s \<and> valid_at now r) (linking_codes d) = None"
    using assms by (simp add: find_none_valid)
  then show ?thesis
    by (simp add: getLinkingCode_none_valid)
qed

text \<open>An instance: the code of s1 has expired and the generator draws it again.\<close>

theorem issue_is_one_attempt_witness:
  "getLinkingCode ex_env ''s1'' 90000000 90000000 (\<lambda>i. 0) ''c2'' (run [ex_issue] empty_db)
     = (Unhandled SqliteError, run [ex_issue] empty_db) \<and>
   \<not> (\<exists>c x d'. getLinkingCode ex_env ''s1'' 90000000 90000000 (\<lambda>i. 0) ''c2'' (run [ex_issue] empty_db) = (CodeJson c x, d'))"
proof -
  have none: "\<not> (\<exists>r \<in> set (linking_codes (run [ex_issue] empty_db)).
                  lc_studentId r = ''s1'' \<and> lc_used r = 0 \<and> 90000000 < lc_expiresAt r)"
    by (simp add: run_issue ex_code_def)
  have stored: "generateLinkingCode (\<lambda>i. 0) \<in> set (map lc_code (linking_codes (run [ex_issue] empty_db)))"
    by (simp add: run_issue ex_code_def generate_zeros)
  from issue_is_one_attempt [OF none, of "\<lambda>i. 0" ex_env 90000000 "''c2''"] stored
  show ?thesis by simp
qed

text \<open>
  C9, as the claim states it, fails. The code of s1 expired at 86401000; at
  90000000 s1 has no valid code, the generator draws the expired code again, and
  the request returns no code and stores none.
\<close>

theorem expired_code_drawn_again:
  "\<not> (\<exists>r \<in> set (linking_codes (run [ex_issue] empty_db)).
         lc_studentId r = ''s1'' \<and> lc_used r = 0 \<and> 90000000 < lc_expiresAt r) \<and>
   fst (getLinkingCode ex_env ''s1'' 90000000 90000000 (\<lambda>i. 0) ''c2'' (run [ex_issue] empty_db)) = Unhandled SqliteError \<and>
   linking_codes (snd (getLinkingCode ex_env ''s1'' 90000000 90000000 (\<lambda>i. 0) ''c2'' (run [ex_issue] empty_db))) = [ex_code]"
  by (simp add: run_issue generate_zeros getLinkingCode_def Let_def
      insert_linking_code_def valid_at_def ex_code_def)

text \<open>
  C9, amended. For a student without a valid code: when the generated code and
  the generated row id are not stored yet and the student passes the foreign key
  check, the handler appends the row (student, generated code, clock read of
  line 248 plus 24 hours, \<^verbatim>\<open>used = 0\<close>) and returns that code and expiry; and
  whenever it returns a code, the code is the generated one, it differs from
  every code stored before (so from the student's earlier codes), and that row
  is what was appended.
\<close>

theorem issue_new_code:
  assumes "\<not> (\<exists>r \<in> set (linking_codes d). lc_studentId r = s \<and> lc_used r = 0 \<and> now < lc_expiresAt r)"
  shows "(newId \<notin> set (map lc_id (linking_codes d)) \<and>
          generateLinkingCode rnd \<notin> set (map lc_code (linking_codes d)) \<and> references_user e s \<longrightarrow>
            getLinkingCode e s now now' rnd newId d =
              (CodeJson (generateLinkingCode rnd) (now' + 24 * 60 * 60 * 1000),
               d\<lparr>linking_codes := linking_codes d @
                    [\<lparr>lc_id = newId, lc_studentId = s, lc_code = generateLinkingCode rnd,
                      lc_expiresAt = now' + 24 * 60 * 60 * 1000, lc_used = 0\<rparr>]\<rparr>)) \<and>
         (\<forall>c x d'. getLinkingCode e s now now' rnd newId d = (CodeJson c x, d') \<longrightarrow>
            c = generateLinkingCode rnd \<and> x = now' + 24 * 60 * 60 * 1000 \<and>
            (\<forall>r \<in> set (linking_codes d). lc_code r \<noteq> c) \<and>
            d' = d\<lparr>linking_codes := linking_codes d @
                    [\<lparr>lc_id = newId, lc_studentId = s, lc_code = c, lc_expiresAt = x, lc_used = 0\<rparr>]\<rparr>)"
proof -
  have "find (\<lambda>r. lc_studentId r = s \<and> valid_at now r) (linking_codes d) = None"
    using assms by (simp add: find_none_valid)
  then have eq: "getLinkingCode e s now now' rnd newId d =
           (if newId \<notin> set (map lc_id (linking_codes d)) \<and>
               generateLinkingCode rnd \<notin> set (map lc_code (linking_codes d)) \<and> references_user e s
            then (CodeJson (generateLinkingCode rnd) (now' + 86400000),
                  d\<lparr>linking_codes := linking_codes d @
                       [\<lparr>lc_id = newId, lc_studentId = s, lc_code = generateLinkingCode rnd,
                         lc_expiresAt = now' + 86400000, lc_used = 0\<rparr>]\<rparr>)
            else (Unhandled SqliteError, d))"
    by (rule getLinkingCode_none_valid)
  have fresh: "\<forall>r \<in> set (linking_codes d). lc_code r \<noteq> generateLinkingCode rnd"
    if "generateLinkingCode rnd \<notin> set (map lc_code (linking_codes d))"
    using that by (metis image_eqI list.set_map)
  show ?thesis
    unfolding eq using fresh by (simp del: set_map)
qed

text \<open>An instance: the code of s1 has expired and the generator draws a new one.\<close>

theorem issue_new_code_witness:
  "getLinkingCode ex_env ''s1'' 90000000 90000001 (\<lambda>i. 2) ''c2'' (run [ex_issue] empty_db)
     = (CodeJson ''STU-CCCCCC'' 176400001,
        \<lparr>linking_codes = [ex_code, \<lparr>lc_id = ''c2'', lc_studentId = ''s1'', lc_code = ''STU-CCCCCC'',
                                    lc_expiresAt = 176400001, lc_used = 0\<rparr>],
         parent_student_links = []\<rparr>)"
proof -
  have none: "\<not> (\<exists>r \<in> set (linking_codes (run [ex_issue] empty_db)).
                  lc_studentId r = ''s1'' \<and> lc_used r = 0 \<and> 90000000 < lc_expiresAt r)"
    by (simp add: run_issue ex_code_def)
  have fresh: "''c2'' \<notin> set (map lc_id (linking_codes (run [ex_issue] empty_db))) \<and>
          generateLinkingCode (\<lambda>i. 2) \<notin> set (map lc_code (linking_codes (run [ex_issue] empty_db))) \<and>
          references_user ex_env ''s1''"
    by (simp add: run_issue ex_code_def generate_twos references_user_def ex_env_def)
  from issue_new_code [OF none, of "''c2''" "\<lambda>i. 2" ex_env 90000001, THEN conjunct1] fresh
  have "getLinkingCode ex_env ''s1'' 90000000 90000001 (\<lambda>i. 2) ''c2'' (run [ex_issue] empty_db) =
          (CodeJson (generateLinkingCode (\<lambda>i. 2)) (90000001 + 24 * 60 * 60 * 1000),
           (run [ex_issue] empty_db)\<lparr>linking_codes := linking_codes (run [ex_issue] empty_db) @
                [\<lparr>lc_id = ''c2'', lc_studentId = ''s1'', lc_code = generateLinkingCode (\<lambda>i. 2),
                  lc_expiresAt = 90000001 + 24 * 60 * 60 * 1000, lc_used = 0\<rparr>]\<rparr>)"
    by blast
  then show ?thesis
    by (simp add: run_issue generate_twos)
qed

subsection \<open>At most one valid code per student, while the clock does not run backwards\<close>

lemma valid_at_earlier: "t \<le> t' \<Longrightarrow> valid_at t' r \<Longrightarrow> valid_at t r"
  by (simp add: valid_at_def)

lemma valid_codes_later:
  assumes "t \<le> t'"
  shows "valid_codes s t' d = filter (valid_at t') (valid_codes s t d)"
  using assms by (auto simp: valid_codes_def intro!: filter_cong dest: valid_at_earlier)

lemma valid_codes_later_subset: "t \<le> t' \<Longrightarrow> set (valid_codes s t' d) \<subseteq> set (valid_codes s t d)"
  by (simp add: valid_codes_later)

lemma valid_codes_later_length: "t \<le> t' \<Longrightarrow> length (valid_codes s t' d) \<le> length (valid_codes s t d)"
  by (simp add: valid_codes_later)

lemma filter_used_update_length:
  "length (filter (\<lambda>r. lc_studentId r = s \<and> valid_at t r)
             (map (\<lambda>r. if lc_studentId r = s' then r\<lparr>lc_used := 1\<rparr> else r) cs))
     \<le> length (filter (\<lambda>r. lc_studentId r = s \<and> valid_at t r) cs)"
  by (induction cs) (auto simp: valid_at_def)

lemma filter_used_update_subset:
  "set (filter (\<lambda>r. lc_studentId r = s \<and> valid_at t r)
          (map (\<lambda>r. if lc_studentId r = s' then r\<lparr>lc_used := 1\<rparr> else r) cs))
     \<subseteq> set (filter (\<lambda>r. lc_studentId r = s \<and> valid_at t r) cs)"
  by (induction cs) (auto simp: valid_at_def)

lemma patchLinkRequest_valid_codes:
  "length (valid_codes s t (snd (patchLinkRequest rid status d))) \<le> length (valid_codes s t d) \<and>
   set (valid_codes s t (snd (patchLinkRequest rid status d))) \<subseteq> set (valid_codes s t d)"
  using patchLinkRequest_codes [of rid status d]
    filter_used_update_length [of s t _ "linking_codes d"]
    filter_used_update_subset [of s t _ "linking_codes d"]
  unfolding valid_codes_def by (elim disjE exE) simp_all

text \<open>What the first of two requests of a student returns is the student's valid code afterwards.\<close>

lemma getLinkingCode_valid_codes:
  assumes "length (valid_codes s now d) \<le> 1" and "now \<le> now'"
      and "getLinkingCode e s now now' rnd newId d = (resp, d1)"
  shows "length (valid_codes s now' d1) \<le> 1 \<and>
         (\<forall>r \<in> set (valid_codes s now' d1). resp = CodeJson (lc_code r) (lc_expiresAt r))"
proof (cases "find (\<lambda>r. lc_studentId r = s \<and> valid_at now r) (linking_codes d)")
  case None
  then have "valid_codes s now d = []"
    by (auto simp: valid_codes_def find_None_iff filter_empty_conv)
  then have empty: "valid_codes s now' d = []"
    using valid_codes_later [OF assms(2), of s d] by simp
  define row where "row = \<lparr>lc_id = newId, lc_studentId = s, lc_code = generateLinkingCode rnd,
                         lc_expiresAt = now' + 86400000, lc_used = 0\<rparr>"
  have step: "getLinkingCode e s now now' rnd newId d =
           (if newId \<notin> set (map lc_id (linking_codes d)) \<and>
               generateLinkingCode rnd \<notin> set (map lc_code (linking_codes d)) \<and> references_user e s
            then (CodeJson (generateLinkingCode rnd) (now' + 86400000),
                  d\<lparr>linking_codes := linking_codes d @ [row]\<rparr>)
            else (Unhandled SqliteError, d))"
    unfolding row_def by (rule getLinkingCode_none_valid [OF None])
  show ?thesis
  proof (cases "d1 = d")
    case True
    then show ?thesis using empty by simp
  next
    case False
    then have res: "resp = CodeJson (lc_code row) (lc_expiresAt row)"
      and d1: "d1 = d\<lparr>linking_codes := linking_codes d @ [row]\<rparr>"
      using assms(3) unfolding step by (auto simp: row_def split: if_splits)
    have "valid_codes s now' d1 = filter (\<lambda>r. lc_studentId r = s \<and> valid_at now' r) [row]"
      using empty unfolding d1 by (simp add: valid_codes_def)
    then have "length (valid_codes s now' d1) \<le> 1" "set (valid_codes s now' d1) \<subseteq> {row}"
      by auto
    then show ?thesis
      using res by auto
  qed
next
  case (Some r0)
  then have r0: "r0 \<in> set (valid_codes s now d)"
    by (auto simp: find_Some_iff valid_codes_def)
  then have only: "valid_codes s now d = [r0]"
    using assms(1) by (cases "valid_codes s now d") auto
  have res: "resp = CodeJson (lc_code r0) (lc_expiresAt r0)" "d1 = d"
    using assms(3) Some by (simp_all add: getLinkingCode_def)
  have "set (valid_codes s now' d) \<subseteq> {r0}"
    using valid_codes_later_subset [OF assms(2), of s d] only by simp
  moreover have "length (valid_codes s now' d) \<le> 1"
    using valid_codes_later_length [OF assms(2), of s d] only by simp
  ultimately show ?thesis
    using res by auto
qed

lemma getLinkingCode_other_student:
  assumes "s' \<noteq> s"
  shows "valid_codes s t (snd (getLinkingCode e s' now now' rnd newId d)) = valid_codes s t d"
  using getLinkingCode_codes [of e s' now now' rnd newId d] assms
  by (auto simp: valid_codes_def)

lemma one_valid_code_later: "t \<le> t' \<Longrightarrow> one_valid_code t d \<Longrightarrow> one_valid_code t' d"
  unfolding one_valid_code_def using valid_codes_later_length le_trans by blast

lemma one_valid_code_handle:
  assumes "one_valid_code t0 d" and "sorted (t0 # clock_reads q)"
  shows "one_valid_code (last (t0 # clock_reads q)) (snd (handle e q d))"
proof (cases q)
  case (GetLinkingCode s now now' rnd newId)
  have le: "t0 \<le> now" "now \<le> now'"
    using assms(2) GetLinkingCode by simp_all
  have at_now: "one_valid_code now d"
    using one_valid_code_later [OF le(1) assms(1)] .
  obtain resp d1 where step: "getLinkingCode e s now now' rnd newId d = (resp, d1)"
    by (cases "getLinkingCode e s now now' rnd newId d")
  have "length (valid_codes s' now' d1) \<le> 1" for s'
  proof (cases "s' = s")
    case True
    then show ?thesis
      using getLinkingCode_valid_codes [OF _ le(2) step] at_now by (simp add: one_valid_code_def)
  next
    case False
    then have "valid_codes s' now' d1 = valid_codes s' now' d"
      using getLinkingCode_other_student [of s s' now' e now now' rnd newId d] step by simp
    then show ?thesis
      using one_valid_code_later [OF le(2) at_now] by (simp add: one_valid_code_def)
  qed
  then show ?thesis
    using GetLinkingCode step by (simp add: one_valid_code_def)
next
  case (PostLinkRequest p c now linkId createdAt)
  have "t0 \<le> createdAt"
    using assms(2) PostLinkRequest by simp
  then have "one_valid_code createdAt d"
    using assms(1) by (rule one_valid_code_later)
  then show ?thesis
    using PostLinkRequest by (simp add: one_valid_code_def valid_codes_def)
next
  case (GetLinkRequests s)
  then show ?thesis using assms(1) by simp
next
  case (PatchLinkRequest rid status)
  then show ?thesis
    using assms(1) patchLinkRequest_valid_codes [of _ t0 rid status d]
    unfolding one_valid_code_def by (auto intro: le_trans)
qed

lemma sorted_last_reads:
  assumes "sorted (t0 # rs @ ts)"
  shows "sorted (t0 # rs) \<and> sorted (last (t0 # rs) # ts) \<and> last (t0 # rs @ ts) = last (last (t0 # rs) # ts)"
proof -
  have "sorted ((t0 # rs) @ ts)"
    using assms by simp
  then have "sorted (t0 # rs)" "sorted ts" "\<forall>x \<in> set (t0 # rs). \<forall>y \<in> set ts. x \<le> y"
    unfolding sorted_append by blast+
  moreover have "last (t0 # rs) \<in> set (t0 # rs)"
    by (rule last_in_set) simp
  ultimately have "sorted (t0 # rs)" "sorted (last (t0 # rs) # ts)"
    by auto
  moreover have "last (t0 # rs @ ts) = last (last (t0 # rs) # ts)"
    by (cases ts) (simp_all add: last_append)
  ultimately show ?thesis by blast
qed

lemma one_valid_code_run:
  assumes "one_valid_code t0 d" and "sorted (t0 # clock_trace h)"
  shows "one_valid_code (last (t0 # clock_trace h)) (run h d)"
  using assms
proof (induction h arbitrary: t0 d)
  case Nil
  then show ?case by (simp add: clock_trace_def)
next
  case (Cons a h)
  obtain e q where a: "a = (e, q)" by (cases a)
  have trace: "clock_trace (a # h) = clock_reads q @ clock_trace h"
    by (simp add: clock_trace_def a)
  from sorted_last_reads [of t0 "clock_reads q" "clock_trace h"] Cons.prems(2)
  have s1: "sorted (t0 # clock_reads q)"
    and s2: "sorted (last (t0 # clock_reads q) # clock_trace h)"
    and l: "last (t0 # clock_reads q @ clock_trace h) = last (last (t0 # clock_reads q) # clock_trace h)"
    unfolding trace by blast+
  have "one_valid_code (last (t0 # clock_reads q)) (snd (handle e q d))"
    by (rule one_valid_code_handle [OF Cons.prems(1) s1])
  then have "one_valid_code (last (last (t0 # clock_reads q) # clock_trace h)) (run h (snd (handle e q d)))"
    using s2 by (rule Cons.IH)
  then show ?case
    unfolding trace l [symmetric] by (simp add: a)
qed

lemma one_valid_code_reachable:
  assumes "sorted (clock_trace h)" and "\<forall>x \<in> set (clock_trace h). x \<le> t"
  shows "one_valid_code t (run h empty_db)"
proof -
  have "one_valid_code 0 empty_db"
    by (simp add: one_valid_code_def valid_codes_def empty_db_def)
  moreover have "sorted (0 # clock_trace h)"
    using assms(1) by simp
  ultimately have "one_valid_code (last (0 # clock_trace h)) (run h empty_db)"
    by (rule one_valid_code_run)
  moreover have "last (0 # clock_trace h) \<le> t"
    using assms(2) by (cases "clock_trace h = []") auto
  ultimately show ?thesis
    using one_valid_code_later by blast
qed

subsection \<open>Asking twice for a code\<close>

lemma valid_codes_handle_other:
  assumes "\<not> issues_for s q"
  shows "set (valid_codes s t (snd (handle e q d))) \<subseteq> set (valid_codes s t d)"
proof (cases q)
  case (GetLinkingCode s' now now' rnd newId)
  then have "s' \<noteq> s"
    using assms by simp
  then show ?thesis
    using GetLinkingCode by (simp add: getLinkingCode_other_student)
next
  case (PostLinkRequest p c now linkId createdAt)
  then show ?thesis by (simp add: valid_codes_def)
next
  case (GetLinkRequests s')
  then show ?thesis by simp
next
  case (PatchLinkRequest rid status)
  then show ?thesis
    using patchLinkRequest_valid_codes [of s t rid status d] by simp
qed

lemma valid_codes_run_other:
  assumes "\<forall>eq \<in> set h. \<not> issues_for s (snd eq)"
  shows "set (valid_codes s t (run h d)) \<subseteq> set (valid_codes s t d)"
  using assms
proof (induction h arbitrary: d)
  case Nil
  then show ?case by simp
next
  case (Cons a h)
  obtain e q where a: "a = (e, q)" by (cases a)
  have "set (valid_codes s t (run h (snd (handle e q d)))) \<subseteq> set (valid_codes s t (snd (handle e q d)))"
    using Cons by simp
  also have "\<dots> \<subseteq> set (valid_codes s t d)"
    using Cons.prems a by (intro valid_codes_handle_other) simp
  finally show ?case
    by (simp add: a)
qed

lemma clock_trace_append: "clock_trace (h @ h') = clock_trace h @ clock_trace h'"
  by (simp add: clock_trace_def)

lemma getLinkingCode_existing:
  assumes "r \<in> set (linking_codes d)" and "lc_studentId r = s" and "lc_used r = 0" and "now < lc_expiresAt r"
  shows "\<exists>r0 \<in> set (valid_codes s now d).
           getLinkingCode e s now now' rnd newId d = (CodeJson (lc_code r0) (lc_expiresAt r0), d)"
proof -
  have "\<exists>r \<in> set (linking_codes d). lc_studentId r = s \<and> valid_at now r"
    using assms by (auto simp: valid_at_def)
  then obtain r0 where r0: "find (\<lambda>r. lc_studentId r = s \<and> valid_at now r) (linking_codes d) = Some r0"
    by (cases "find (\<lambda>r. lc_studentId r = s \<and> valid_at now r) (linking_codes d)") (auto simp: find_None_iff)
  then have "r0 \<in> set (valid_codes s now d)"
    by (auto simp: find_Some_iff valid_codes_def)
  moreover have "getLinkingCode e s now now' rnd newId d = (CodeJson (lc_code r0) (lc_expiresAt r0), d)"
    using r0 by (simp add: getLinkingCode_def)
  ultimately show ?thesis by blast
qed

lemma code_rows_persist_handle:
  assumes "r \<in> set (linking_codes d)"
  shows "\<exists>r' \<in> set (linking_codes (snd (handle e q d))).
           lc_code r' = lc_code r \<and> lc_studentId r' = lc_studentId r \<and> lc_expiresAt r' = lc_expiresAt r"
proof (cases q)
  case (GetLinkingCode s now now' rnd newId)
  then show ?thesis
    using assms getLinkingCode_codes [of e s now now' rnd newId d] by auto
next
  case (PostLinkRequest p c now linkId createdAt)
  then show ?thesis using assms by auto
next
  case (GetLinkRequests s)
  then show ?thesis using assms by auto
next
  case (PatchLinkRequest rid status)
  from patchLinkRequest_codes [of rid status d]
  show ?thesis
  proof
    assume "linking_codes (snd (patchLinkRequest rid status d)) = linking_codes d"
    then show ?thesis
      using assms PatchLinkRequest by auto
  next
    assume "\<exists>s. linking_codes (snd (patchLinkRequest rid status d)) =
          map (\<lambda>r. if lc_studentId r = s then r\<lparr>lc_used := 1\<rparr> else r) (linking_codes d)"
    then obtain s where eq: "linking_codes (snd (patchLinkRequest rid status d)) =
          map (\<lambda>r. if lc_studentId r = s then r\<lparr>lc_used := 1\<rparr> else r) (linking_codes d)" ..
    have "(if lc_studentId r = s then r\<lparr>lc_used := 1\<rparr> else r) \<in> set (linking_codes (snd (patchLinkRequest rid status d)))"
      unfolding eq using assms by simp
    then show ?thesis
      unfolding PatchLinkRequest handle.simps by (rule rev_bexI) simp
  qed
qed

lemma code_rows_persist_run:
  assumes "r \<in> set (linking_codes d)"
  shows "\<exists>r' \<in> set (linking_codes (run h d)).
           lc_code r' = lc_code r \<and> lc_studentId r' = lc_studentId r \<and> lc_expiresAt r' = lc_expiresAt r"
  using assms
proof (induction h arbitrary: d r)
  case Nil
  then show ?case by auto
next
  case (Cons a h)
  obtain e q where a: "a = (e, q)" by (cases a)
  from code_rows_persist_handle [OF Cons.prems, of e q]
  obtain r1 where r1: "r1 \<in> set (linking_codes (snd (handle e q d)))"
    "lc_code r1 = lc_code r" "lc_studentId r1 = lc_studentId r" "lc_expiresAt r1 = lc_expiresAt r"
    by blast
  from Cons.IH [OF r1(1)]
  obtain r2 where "r2 \<in> set (linking_codes (run h (snd (handle e q d))))"
    "lc_code r2 = lc_code r1" "lc_studentId r2 = lc_studentId r1" "lc_expiresAt r2 = lc_expiresAt r1"
    by blast
  then show ?case
    using r1 by (auto simp: a)
qed

lemma getLinkingCode_returns_row:
  assumes "getLinkingCode e s now now' rnd newId d = (CodeJson c x, d1)"
  shows "\<exists>r \<in> set (linking_codes d1). lc_code r = c \<and> lc_studentId r = s \<and> lc_expiresAt r = x"
proof (cases "find (\<lambda>r. lc_studentId r = s \<and> valid_at now r) (linking_codes d)")
  case None
  show ?thesis
    using assms unfolding getLinkingCode_none_valid [OF None]
    by (auto split: if_splits)
next
  case (Some r0)
  then have "r0 \<in> set (linking_codes d)" "lc_studentId r0 = s"
    by (auto simp: find_Some_iff)
  moreover have "c = lc_code r0" "x = lc_expiresAt r0" "d1 = d"
    using assms Some by (simp_all add: getLinkingCode_def)
  ultimately show ?thesis by auto
qed

lemma getLinkingCode_only_valid:
  assumes "length (valid_codes s now d) \<le> 1" and "r \<in> set (valid_codes s now d)"
  shows "getLinkingCode e s now now' rnd newId d = (CodeJson (lc_code r) (lc_expiresAt r), d)"
proof -
  have r: "r \<in> set (linking_codes d)" "lc_studentId r = s" "lc_used r = 0" "now < lc_expiresAt r"
    using assms(2) by (auto simp: valid_codes_def valid_at_def)
  from getLinkingCode_existing [OF r, of e now' rnd newId]
  obtain r0 where r0: "r0 \<in> set (valid_codes s now d)"
    and res: "getLinkingCode e s now now' rnd newId d = (CodeJson (lc_code r0) (lc_expiresAt r0), d)"
    by blast
  have "valid_codes s now d = [r]"
    using assms by (cases "valid_codes s now d") auto
  then have "r0 = r"
    using r0 by simp
  then show ?thesis
    using res by simp
qed

text \<open>
  C5, as the claim states it, fails when the clock steps back between the two
  requests. The code of s1 expires at 86401000. At 86401000 s1 asks for a code:
  the stored one has just expired and a new one is issued. The clock then reads
  86400999 and s1 asks again: a row of s1 with \<^verbatim>\<open>used = 0\<close> and a later
  \<^verbatim>\<open>expiresAt\<close> exists (there are two), and the query returns the first, which
  is not the code of the request before.
\<close>

theorem clock_step_back_other_code:
  "getLinkingCode ex_env ''s1'' 86401000 86401000 (\<lambda>i. 2) ''c2'' (run [ex_issue] empty_db)
     = (CodeJson ''STU-CCCCCC'' 172801000,
        \<lparr>linking_codes = [ex_code, \<lparr>lc_id = ''c2'', lc_studentId = ''s1'', lc_code = ''STU-CCCCCC'',
                                    lc_expiresAt = 172801000, lc_used = 0\<rparr>],
         parent_student_links = []\<rparr>) \<and>
   getLinkingCode ex_env ''s1'' 86400999 86400999 (\<lambda>i. 3) ''c3''
        \<lparr>linking_codes = [ex_code, \<lparr>lc_id = ''c2'', lc_studentId = ''s1'', lc_code = ''STU-CCCCCC'',
                                    lc_expiresAt = 172801000, lc_used = 0\<rparr>],
         parent_student_links = []\<rparr>
     = (CodeJson ''STU-AAAAAA'' 86401000,
        \<lparr>linking_codes = [ex_code, \<lparr>lc_id = ''c2'', lc_studentId = ''s1'', lc_code = ''STU-CCCCCC'',
                                    lc_expiresAt = 172801000, lc_used = 0\<rparr>],
         parent_student_links = []\<rparr>) \<and>
   (\<exists>r \<in> set (linking_codes
        \<lparr>linking_codes = [ex_code, \<lparr>lc_id = ''c2'', lc_studentId = ''s1'', lc_code = ''STU-CCCCCC'',
                                    lc_expiresAt = 172801000, lc_used = 0\<rparr>],
         parent_student_links = []\<rparr>).
      lc_studentId r = ''s1'' \<and> lc_used r = 0 \<and> 86400999 < lc_expiresAt r)"
proof (intro conjI)
  show "getLinkingCode ex_env ''s1'' 86401000 86401000 (\<lambda>i. 2) ''c2'' (run [ex_issue] empty_db)
     = (CodeJson ''STU-CCCCCC'' 172801000,
        \<lparr>linking_codes = [ex_code, \<lparr>lc_id = ''c2'', lc_studentId = ''s1'', lc_code = ''STU-CCCCCC'',
                                    lc_expiresAt = 172801000, lc_used = 0\<rparr>],
         parent_student_links = []\<rparr>)"
    by (simp add: run_issue getLinkingCode_def Let_def insert_linking_code_def valid_at_def
        references_user_def ex_env_def generate_twos ex_code_def)
  show "getLinkingCode ex_env ''s1'' 86400999 86400999 (\<lambda>i. 3) ''c3''
        \<lparr>linking_codes = [ex_code, \<lparr>lc_id = ''c2'', lc_studentId = ''s1'', lc_code = ''STU-CCCCCC'',
                                    lc_expiresAt = 172801000, lc_used = 0\<rparr>],
         parent_student_links = []\<rparr>
     = (CodeJson ''STU-AAAAAA'' 86401000,
        \<lparr>linking_codes = [ex_code, \<lparr>lc_id = ''c2'', lc_studentId = ''s1'', lc_code = ''STU-CCCCCC'',
                                    lc_expiresAt = 172801000, lc_used = 0\<rparr>],
         parent_student_links = []\<rparr>)"
    by (simp add: getLinkingCode_def valid_at_def ex_code_def)
  show "\<exists>r \<in> set (linking_codes
        \<lparr>linking_codes = [ex_code, \<lparr>lc_id = ''c2'', lc_studentId = ''s1'', lc_code = ''STU-CCCCCC'',
                                    lc_expiresAt = 172801000, lc_used = 0\<rparr>],
         parent_student_links = []\<rparr>).
      lc_studentId r = ''s1'' \<and> lc_used r = 0 \<and> 86400999 < lc_expiresAt r"
    by (simp add: ex_code_def)
qed

text \<open>
  C5, amended. Take a history of requests, from the empty tables on, whose clock
  reads never decrease. In it student \<open>s\<close> asks for a code (clock reads \<open>t1\<close>,
  \<open>t1'\<close>), then come the requests \<open>mid\<close>, then \<open>s\<close> asks again (clock read
  \<open>t2\<close>). Suppose that at the second request
  \<^item> the code the first request returned is stored with \<^verbatim>\<open>used = 0\<close> and
    \<^verbatim>\<open>expiresAt\<close> later than \<open>t2\<close>, whatever \<open>mid\<close> is (it may hold further
    requests of \<open>s\<close> for a code), or
  \<^item> some row of \<open>s\<close> has \<^verbatim>\<open>used = 0\<close> and \<^verbatim>\<open>expiresAt\<close> later than \<open>t2\<close>, and
    \<open>mid\<close> holds no request of \<open>s\<close> for a code.

  Then the first request returned a code and an expiry, the second returns the
  same code and the same expiry, and the second leaves the database as it found
  it.
\<close>

theorem same_code_while_valid:
  assumes "sorted (clock_trace (h @ [(e1, GetLinkingCode s t1 t1' rnd1 id1)] @ mid @ [(e2, GetLinkingCode s t2 t2' rnd2 id2)]))"
      and "getLinkingCode e1 s t1 t1' rnd1 id1 (run h empty_db) = (resp1, d1)"
      and "(\<exists>c x. resp1 = CodeJson c x \<and>
              (\<exists>r \<in> set (linking_codes (run mid d1)). lc_code r = c \<and> lc_used r = 0 \<and> t2 < lc_expiresAt r)) \<or>
           ((\<forall>eq \<in> set mid. \<not> issues_for s (snd eq)) \<and>
              (\<exists>r \<in> set (linking_codes (run mid d1)). lc_studentId r = s \<and> lc_used r = 0 \<and> t2 < lc_expiresAt r))"
  shows "\<exists>c x. resp1 = CodeJson c x \<and>
               getLinkingCode e2 s t2 t2' rnd2 id2 (run mid d1) = (CodeJson c x, run mid d1)"
proof -
  let ?first = "(e1, GetLinkingCode s t1 t1' rnd1 id1)"
  have sorted_all: "sorted (clock_trace h @ [t1, t1'] @ clock_trace mid @ [t2, t2'])"
    using assms(1) by (simp add: clock_trace_append) (simp add: clock_trace_def)
  then have before: "sorted (clock_trace h)" "\<forall>x \<in> set (clock_trace h). x \<le> t1"
    and le: "t1 \<le> t1'" "t1' \<le> t2"
    by (auto simp: sorted_append)
  from assms(3) show ?thesis
  proof
    assume "\<exists>c x. resp1 = CodeJson c x \<and>
              (\<exists>r \<in> set (linking_codes (run mid d1)). lc_code r = c \<and> lc_used r = 0 \<and> t2 < lc_expiresAt r)"
    then obtain c x r where resp1: "resp1 = CodeJson c x"
      and r: "r \<in> set (linking_codes (run mid d1))" "lc_code r = c" "lc_used r = 0" "t2 < lc_expiresAt r"
      by blast
    have state: "run mid d1 = run (h @ [?first] @ mid) empty_db"
      using assms(2) by (simp add: run_append)
    have trace: "clock_trace (h @ [?first] @ mid) = clock_trace h @ [t1, t1'] @ clock_trace mid"
      by (simp add: clock_trace_append) (simp add: clock_trace_def)
    have "sorted (clock_trace (h @ [?first] @ mid))" "\<forall>x \<in> set (clock_trace (h @ [?first] @ mid)). x \<le> t2"
      unfolding trace using sorted_all by (auto simp: sorted_append)
    then have "one_valid_code t2 (run mid d1)"
      unfolding state by (rule one_valid_code_reachable)
    then have one: "length (valid_codes s t2 (run mid d1)) \<le> 1"
      by (simp add: one_valid_code_def)
    have codes: "distinct (map lc_code (linking_codes (run mid d1)))"
      unfolding state using constraints_hold_reachable [of "h @ [?first] @ mid"]
      by (simp add: constraints_hold_def)
    from getLinkingCode_returns_row [OF assms(2) [unfolded resp1]]
    obtain r1 where "r1 \<in> set (linking_codes d1)" "lc_code r1 = c" "lc_studentId r1 = s" "lc_expiresAt r1 = x"
      by blast
    with code_rows_persist_run [of r1 d1 mid]
    obtain r2 where r2: "r2 \<in> set (linking_codes (run mid d1))"
      "lc_code r2 = c" "lc_studentId r2 = s" "lc_expiresAt r2 = x"
      by auto
    have "r2 = r"
      using codes r(1,2) r2(1,2) by (metis distinct_map inj_onD)
    then have "r \<in> set (valid_codes s t2 (run mid d1))" "lc_expiresAt r = x"
      using r r2 by (simp_all add: valid_codes_def valid_at_def)
    with getLinkingCode_only_valid [OF one, of r e2 t2' rnd2 id2] r(2)
    have "getLinkingCode e2 s t2 t2' rnd2 id2 (run mid d1) = (CodeJson c x, run mid d1)"
      by simp
    then show ?thesis
      using resp1 by blast
  next
    assume b: "(\<forall>eq \<in> set mid. \<not> issues_for s (snd eq)) \<and>
              (\<exists>r \<in> set (linking_codes (run mid d1)). lc_studentId r = s \<and> lc_used r = 0 \<and> t2 < lc_expiresAt r)"
    have "one_valid_code t1 (run h empty_db)"
      by (rule one_valid_code_reachable [OF before])
    then have "length (valid_codes s t1 (run h empty_db)) \<le> 1"
      by (simp add: one_valid_code_def)
    from getLinkingCode_valid_codes [OF this le(1) assms(2)]
    have first: "\<forall>r \<in> set (valid_codes s t1' d1). resp1 = CodeJson (lc_code r) (lc_expiresAt r)"
      by blast
    from b obtain r where r: "r \<in> set (linking_codes (run mid d1))"
        "lc_studentId r = s" "lc_used r = 0" "t2 < lc_expiresAt r"
      by blast
    from getLinkingCode_existing [OF r, of e2 t2' rnd2 id2]
    obtain r0 where r0: "r0 \<in> set (valid_codes s t2 (run mid d1))"
      and second: "getLinkingCode e2 s t2 t2' rnd2 id2 (run mid d1) = (CodeJson (lc_code r0) (lc_expiresAt r0), run mid d1)"
      by blast
    have "r0 \<in> set (valid_codes s t2 d1)"
      using valid_codes_run_other [of mid s t2 d1] b r0 by blast
    then have "r0 \<in> set (valid_codes s t1' d1)"
      using valid_codes_later_subset [OF le(2), of s d1] by blast
    then have "resp1 = CodeJson (lc_code r0) (lc_expiresAt r0)"
      using first by blast
    then show ?thesis
      using second by blast
  qed
qed

text \<open>
  An instance with three requests of s1 in one validity window: s1 asks at 1000,
  p1 redeems the code and is rejected, s1 asks at 2500, and s1 asks again at
  3000.
\<close>

theorem same_code_while_valid_witness:
  "getLinkingCode ex_env ''s1'' 1000 1000 (\<lambda>i. 0) ''c1'' empty_db
     = (CodeJson ''STU-AAAAAA'' 86401000, run [ex_issue] empty_db) \<and>
   getLinkingCode ex_env ''s1'' 3000 3000 (\<lambda>i. 3) ''c3''
       (run [ex_redeem, ex_reject, (ex_env, GetLinkingCode ''s1'' 2500 2500 (\<lambda>i. 2) ''c2'')] (run [ex_issue] empty_db))
     = (CodeJson ''STU-AAAAAA'' 86401000, run [ex_issue, ex_redeem, ex_reject] empty_db)"
proof -
  let ?again = "(ex_env, GetLinkingCode ''s1'' 2500 2500 (\<lambda>i. 2) ''c2'')"
  have "run [ex_redeem, ex_reject, ?again] (run [ex_issue] empty_db)
          = run [?again] (run [ex_issue, ex_redeem, ex_reject] empty_db)"
    using run_append [of "[ex_issue]" "[ex_redeem, ex_reject, ?again]" empty_db]
      run_append [of "[ex_issue, ex_redeem, ex_reject]" "[?again]" empty_db] by simp
  also have "\<dots> = run [ex_issue, ex_redeem, ex_reject] empty_db"
    unfolding run_issue_redeem_reject
    by (simp add: getLinkingCode_def valid_at_def ex_code_def)
  finally have state: "run [ex_redeem, ex_reject, ?again] (run [ex_issue] empty_db)
          = run [ex_issue, ex_redeem, ex_reject] empty_db" .
  have first: "getLinkingCode ex_env ''s1'' 1000 1000 (\<lambda>i. 0) ''c1'' (run [] empty_db)
                 = (CodeJson ''STU-AAAAAA'' 86401000, run [ex_issue] empty_db)"
    unfolding run_issue
    by (simp add: getLinkingCode_def empty_db_def insert_linking_code_def
        references_user_def ex_env_def generate_zeros ex_code_def Let_def)
  have clock: "sorted (clock_trace ([] @ [(ex_env, GetLinkingCode ''s1'' 1000 1000 (\<lambda>i. 0) ''c1'')] @
                 [ex_redeem, ex_reject, ?again] @ [(ex_env, GetLinkingCode ''s1'' 3000 3000 (\<lambda>i. 3) ''c3'')]))"
    by (simp add: clock_trace_def ex_redeem_def ex_reject_def)
  have valid: "(\<exists>c x. CodeJson ''STU-AAAAAA'' 86401000 = CodeJson c x \<and>
              (\<exists>r \<in> set (linking_codes (run [ex_redeem, ex_reject, ?again] (run [ex_issue] empty_db))).
                 lc_code r = c \<and> lc_used r = 0 \<and> 3000 < lc_expiresAt r)) \<or>
           ((\<forall>eq \<in> set [ex_redeem, ex_reject, ?again]. \<not> issues_for ''s1'' (snd eq)) \<and>
              (\<exists>r \<in> set (linking_codes (run [ex_redeem, ex_reject, ?again] (run [ex_issue] empty_db))).
                 lc_studentId r = ''s1'' \<and> lc_used r = 0 \<and> 3000 < lc_expiresAt r))"
    unfolding state by (simp add: run_issue_redeem_reject ex_code_def)
  from same_code_while_valid [OF clock first valid]
  obtain c x where "CodeJson ''STU-AAAAAA'' 86401000 = CodeJson c x"
    and "getLinkingCode ex_env ''s1'' 3000 3000 (\<lambda>i. 3) ''c3'' (run [ex_redeem, ex_reject, ?again] (run [ex_issue] empty_db))
           = (CodeJson c x, run [ex_redeem, ex_reject, ?again] (run [ex_issue] empty_db))"
    by blast
  then show ?thesis
    using first state by simp
qed

end
